theory Spec2Isabelle
  imports Main
begin

section \<open>Data model\<close>

text \<open>
  The notebook keeps documents and todo items (\<^verbatim>\<open>src/types/index.ts\<close>).
  A JavaScript string is modelled by a \<^typ>\<open>string\<close>: one \<^typ>\<open>char\<close> per UTF-16 code
  unit, for the code units below 256 (ASCII and Latin-1). A \<^verbatim>\<open>Date\<close> is modelled by its
  time value, the milliseconds since the epoch; the invalid date is outside the model
  (the spec's data model speaks of timestamps).
\<close>

type_synonym instant = int

record document =
  d_id :: string
  d_title :: string
  d_content :: string
  d_createdAt :: instant
  d_updatedAt :: instant
  d_tags :: "string list"

datatype status = pending | in_progress | completed

datatype priority = high | medium | low

record todoItem =
  t_id :: string
  t_content :: string
  t_status :: status
  t_priority :: priority
  t_createdAt :: instant
  t_updatedAt :: instant

text \<open>
  The system clock. \<^verbatim>\<open>new Date()\<close> and \<^verbatim>\<open>Date.now()\<close> read it; nothing in the code
  makes two readings equal or ordered, so a clock is the sequence of the readings still
  to come: \<open>now\<close> is the next reading and \<open>tick\<close> the clock after it.
\<close>

type_synonym clock = "nat \<Rightarrow> instant"

definition now :: "clock \<Rightarrow> instant" where
  "now c = c 0"

definition tick :: "clock \<Rightarrow> clock" where
  "tick c = (\<lambda>n. c (Suc n))"

section \<open>State store: the notepad reducer\<close>

record notepadState =
  documents :: "document list"
  activeDocumentId :: "string option"
  isPreviewMode :: bool
  searchQuery :: string

datatype notepadAction =
    SET_DOCUMENTS "document list"
  | ADD_DOCUMENT document
  | UPDATE_DOCUMENT string string string
  | DELETE_DOCUMENT string
  | SET_ACTIVE_DOCUMENT "string option"
  | TOGGLE_PREVIEW_MODE
  | SET_SEARCH_QUERY string

definition initialState :: notepadState where
  "initialState =
     \<lparr>documents = [], activeDocumentId = None, isPreviewMode = False, searchQuery = []\<rparr>"

text \<open>
  The \<^verbatim>\<open>map\<close> callback of \<^verbatim>\<open>UPDATE_DOCUMENT\<close>; the payload is \<open>(id, content, title)\<close>
  as the action type declares it. Each matching document gets a clock reading of its own,
  since \<^verbatim>\<open>new Date()\<close> is evaluated inside the callback.
\<close>

fun updateDocuments ::
  "string \<Rightarrow> string \<Rightarrow> string \<Rightarrow> document list \<Rightarrow> clock \<Rightarrow> document list \<times> clock" where
  "updateDocuments i c t [] clk = ([], clk)"
| "updateDocuments i c t (doc # docs) clk =
     (if d_id doc = i
      then (let doc' = doc\<lparr>d_content := c, d_title := t, d_updatedAt := now clk\<rparr>;
                (docs', clk') = updateDocuments i c t docs (tick clk)
            in (doc' # docs', clk'))
      else (let (docs', clk') = updateDocuments i c t docs clk
            in (doc # docs', clk')))"

fun notepadReducer :: "notepadState \<Rightarrow> notepadAction \<Rightarrow> clock \<Rightarrow> notepadState \<times> clock" where
  "notepadReducer state (SET_DOCUMENTS payload) clk = (state\<lparr>documents := payload\<rparr>, clk)"
| "notepadReducer state (ADD_DOCUMENT payload) clk =
     (state\<lparr>documents := documents state @ [payload]\<rparr>, clk)"
| "notepadReducer state (UPDATE_DOCUMENT i c t) clk =
     (let (docs', clk') = updateDocuments i c t (documents state) clk
      in (state\<lparr>documents := docs'\<rparr>, clk'))"
| "notepadReducer state (DELETE_DOCUMENT payload) clk =
     (state\<lparr>documents := filter (\<lambda>doc. d_id doc \<noteq> payload) (documents state),
            activeDocumentId :=
              (if activeDocumentId state = Some payload then None else activeDocumentId state)\<rparr>,
      clk)"
| "notepadReducer state (SET_ACTIVE_DOCUMENT payload) clk =
     (state\<lparr>activeDocumentId := payload\<rparr>, clk)"
| "notepadReducer state TOGGLE_PREVIEW_MODE clk =
     (state\<lparr>isPreviewMode := \<not> isPreviewMode state\<rparr>, clk)"
| "notepadReducer state (SET_SEARCH_QUERY payload) clk = (state\<lparr>searchQuery := payload\<rparr>, clk)"

section \<open>Persistence adapter: \<^verbatim>\<open>ExcelStorage\<close>\<close>

text \<open>
  The adapter keeps every record in one text under one \<^verbatim>\<open>localStorage\<close> key. In the
  stored text a date is the ISO-8601 text of its instant: \<^verbatim>\<open>toISOString\<close> writes it and
  \<^verbatim>\<open>new Date(text)\<close> reads the same instant back (ECMAScript, Date.parse). The model
  keeps the instant under the constructor \<open>ISO\<close>.
\<close>

datatype isoString = ISO instant

definition toISOString :: "instant \<Rightarrow> isoString" where
  "toISOString t = ISO t"

fun newDate :: "isoString \<Rightarrow> instant" where
  "newDate (ISO t) = t"

record docData =
  dd_id :: string
  dd_title :: string
  dd_content :: string
  dd_tags :: "string list"
  dd_createdAt :: isoString
  dd_updatedAt :: isoString

record todoData =
  td_id :: string
  td_content :: string
  td_status :: status
  td_priority :: priority
  td_createdAt :: isoString
  td_updatedAt :: isoString

record recordSet =
  rs_documents :: "docData list"
  rs_todos :: "todoData list"

text \<open>
  What \<^verbatim>\<open>localStorage.getItem\<close> can hand back for the key, apart from \<^verbatim>\<open>null\<close>
  (\<open>None\<close>): the empty text, a text that \<^verbatim>\<open>JSON.parse\<close> rejects, or the text that
  \<^verbatim>\<open>JSON.stringify\<close> writes for a record set, which \<^verbatim>\<open>JSON.parse\<close> reads back as
  that record set. Texts that parse to a value of another shape are outside the model.
\<close>

datatype blob = EmptyText | Unparsable | Json recordSet

datatype error = SyntaxError | QuotaExceededError | TypeError

fun JSON_parse :: "blob \<Rightarrow> error + recordSet" where
  "JSON_parse (Json d) = Inr d"
| "JSON_parse Unparsable = Inl SyntaxError"
| "JSON_parse EmptyText = Inl SyntaxError"

definition JSON_stringify :: "recordSet \<Rightarrow> blob" where
  "JSON_stringify d = Json d"

text \<open>
  The adapter object together with the storage behind it: \<open>stored\<close> is the item under
  \<^verbatim>\<open>STORAGE_KEY\<close>, \<open>accepts\<close> says for which texts \<^verbatim>\<open>localStorage.setItem\<close> stores
  the text (for the others it throws and leaves the item as it was), \<open>data\<close> is the
  private field \<^verbatim>\<open>this.data\<close>. Every operation returns the adapter after the call and
  either the error thrown or the value returned.
\<close>

record excelStorage =
  stored :: "blob option"
  accepts :: "blob \<Rightarrow> bool"
  data :: recordSet

definition emptyData :: recordSet where
  "emptyData = \<lparr>rs_documents = [], rs_todos = []\<rparr>"

definition loadData :: "excelStorage \<Rightarrow> excelStorage \<times> (error + recordSet)" where
  "loadData s =
     (case stored s of
        None \<Rightarrow> (s, Inr (data s))
      | Some b \<Rightarrow>
          if b \<noteq> EmptyText
          then (case JSON_parse b of
                  Inl e \<Rightarrow> (s, Inl e)
                | Inr d \<Rightarrow> (s\<lparr>data := d\<rparr>, Inr d))
          else (s, Inr (data s)))"

definition saveData :: "excelStorage \<Rightarrow> excelStorage \<times> (error + unit)" where
  "saveData s =
     (let json = JSON_stringify (data s)
      in if accepts s json then (s\<lparr>stored := Some json\<rparr>, Inr ())
         else (s, Inl QuotaExceededError))"

fun findIndex :: "('a \<Rightarrow> bool) \<Rightarrow> 'a list \<Rightarrow> int" where
  "findIndex p [] = - 1"
| "findIndex p (x # xs) =
     (if p x then 0 else (let k = findIndex p xs in if k < 0 then - 1 else k + 1))"

text \<open>The object literal \<^verbatim>\<open>docData\<close> of \<^verbatim>\<open>saveDocument\<close>.\<close>

definition docDataOf :: "document \<Rightarrow> docData" where
  "docDataOf doc =
     \<lparr>dd_id = d_id doc, dd_title = d_title doc, dd_content = d_content doc,
      dd_tags = d_tags doc,
      dd_createdAt = toISOString (d_createdAt doc),
      dd_updatedAt = toISOString (d_updatedAt doc)\<rparr>"

definition saveDocument :: "document \<Rightarrow> excelStorage \<Rightarrow> excelStorage \<times> (error + unit)" where
  "saveDocument doc s =
     (case loadData s of
        (s1, Inl e) \<Rightarrow> (s1, Inl e)
      | (s1, Inr dat) \<Rightarrow>
          (let existingIndex = findIndex (\<lambda>d. dd_id d = d_id doc) (rs_documents dat);
               docData = docDataOf doc;
               docs = (if existingIndex \<ge> 0
                       then (rs_documents dat)[nat existingIndex := docData]
                       else rs_documents dat @ [docData])
           in saveData (s1\<lparr>data := dat\<lparr>rs_documents := docs\<rparr>\<rparr>)))"

text \<open>
  The object literal that \<^verbatim>\<open>getDocument\<close> and \<^verbatim>\<open>getAllDocuments\<close> build from a
  stored record.
\<close>

definition toDocument :: "docData \<Rightarrow> document" where
  "toDocument doc =
     \<lparr>d_id = dd_id doc, d_title = dd_title doc, d_content = dd_content doc,
      d_createdAt = newDate (dd_createdAt doc), d_updatedAt = newDate (dd_updatedAt doc),
      d_tags = dd_tags doc\<rparr>"

definition getDocument :: "string \<Rightarrow> excelStorage \<Rightarrow> excelStorage \<times> (error + document option)" where
  "getDocument i s =
     (case loadData s of
        (s1, Inl e) \<Rightarrow> (s1, Inl e)
      | (s1, Inr dat) \<Rightarrow>
          (case find (\<lambda>doc. dd_id doc = i) (rs_documents dat) of
             None \<Rightarrow> (s1, Inr None)
           | Some doc \<Rightarrow> (s1, Inr (Some (toDocument doc)))))"

definition getAllDocuments :: "excelStorage \<Rightarrow> excelStorage \<times> (error + document list)" where
  "getAllDocuments s =
     (case loadData s of
        (s1, Inl e) \<Rightarrow> (s1, Inl e)
      | (s1, Inr dat) \<Rightarrow> (s1, Inr (map toDocument (rs_documents dat))))"

definition deleteDocument :: "string \<Rightarrow> excelStorage \<Rightarrow> excelStorage \<times> (error + unit)" where
  "deleteDocument i s =
     (case loadData s of
        (s1, Inl e) \<Rightarrow> (s1, Inl e)
      | (s1, Inr dat) \<Rightarrow>
          saveData (s1\<lparr>data := dat\<lparr>rs_documents :=
                                      filter (\<lambda>doc. dd_id doc \<noteq> i) (rs_documents dat)\<rparr>\<rparr>))"

text \<open>
  \<^verbatim>\<open>String.prototype.toLowerCase\<close> on the code units below 256: the letters A to Z and
  the Latin-1 capitals U+00C0 to U+00DE (U+00D7, the multiplication sign, is no letter)
  have a lower-case form, 32 code units further on; every other unit stays.
\<close>

definition upperCaseUnits :: string where
  "upperCaseUnits = ''ABCDEFGHIJKLMNOPQRSTUVWXYZ'' @
     [CHR 0xC0, CHR 0xC1, CHR 0xC2, CHR 0xC3, CHR 0xC4, CHR 0xC5, CHR 0xC6, CHR 0xC7, CHR 0xC8, CHR 0xC9, CHR 0xCA, CHR 0xCB, CHR 0xCC, CHR 0xCD, CHR 0xCE, CHR 0xCF, CHR 0xD0, CHR 0xD1, CHR 0xD2, CHR 0xD3, CHR 0xD4, CHR 0xD5, CHR 0xD6, CHR 0xD8, CHR 0xD9, CHR 0xDA, CHR 0xDB, CHR 0xDC, CHR 0xDD, CHR 0xDE]"

definition lowerCaseUnits :: string where
  "lowerCaseUnits = ''abcdefghijklmnopqrstuvwxyz'' @
     [CHR 0xE0, CHR 0xE1, CHR 0xE2, CHR 0xE3, CHR 0xE4, CHR 0xE5, CHR 0xE6, CHR 0xE7, CHR 0xE8, CHR 0xE9, CHR 0xEA, CHR 0xEB, CHR 0xEC, CHR 0xED, CHR 0xEE, CHR 0xEF, CHR 0xF0, CHR 0xF1, CHR 0xF2, CHR 0xF3, CHR 0xF4, CHR 0xF5, CHR 0xF6, CHR 0xF8, CHR 0xF9, CHR 0xFA, CHR 0xFB, CHR 0xFC, CHR 0xFD, CHR 0xFE]"

definition toLowerCase :: "string \<Rightarrow> string" where
  "toLowerCase s =
     map (\<lambda>c. case map_of (zip upperCaseUnits lowerCaseUnits) c of Some l \<Rightarrow> l | None \<Rightarrow> c) s"

text \<open>\<^verbatim>\<open>String.prototype.includes\<close>: the pattern starts at some position of the text.\<close>

fun startsWith :: "string \<Rightarrow> string \<Rightarrow> bool" where
  "startsWith s [] = True"
| "startsWith [] (q # qs) = False"
| "startsWith (c # cs) (q # qs) = (c = q \<and> startsWith cs qs)"

fun includes_js :: "string \<Rightarrow> string \<Rightarrow> bool" where
  "includes_js [] q = startsWith [] q"
| "includes_js (c # cs) q = (startsWith (c # cs) q \<or> includes_js cs q)"

definition searchDocuments :: "string \<Rightarrow> excelStorage \<Rightarrow> excelStorage \<times> (error + document list)" where
  "searchDocuments query s =
     (case getAllDocuments s of
        (s1, Inl e) \<Rightarrow> (s1, Inl e)
      | (s1, Inr allDocs) \<Rightarrow>
          (let lowerQuery = toLowerCase query
           in (s1, Inr (filter (\<lambda>doc. includes_js (toLowerCase (d_title doc)) lowerQuery \<or>
                                      includes_js (toLowerCase (d_content doc)) lowerQuery \<or>
                                      list_ex (\<lambda>tag. includes_js (toLowerCase tag) lowerQuery) (d_tags doc))
                         allDocs))))"

text \<open>The object literal \<^verbatim>\<open>todoData\<close> of \<^verbatim>\<open>saveTodo\<close>.\<close>

definition todoDataOf :: "todoItem \<Rightarrow> todoData" where
  "todoDataOf todo =
     \<lparr>td_id = t_id todo, td_content = t_content todo,
      td_status = t_status todo, td_priority = t_priority todo,
      td_createdAt = toISOString (t_createdAt todo),
      td_updatedAt = toISOString (t_updatedAt todo)\<rparr>"

definition saveTodo :: "todoItem \<Rightarrow> excelStorage \<Rightarrow> excelStorage \<times> (error + unit)" where
  "saveTodo todo s =
     (case loadData s of
        (s1, Inl e) \<Rightarrow> (s1, Inl e)
      | (s1, Inr dat) \<Rightarrow>
          (let existingIndex = findIndex (\<lambda>t. td_id t = t_id todo) (rs_todos dat);
               todoData = todoDataOf todo;
               todos = (if existingIndex \<ge> 0
                        then (rs_todos dat)[nat existingIndex := todoData]
                        else rs_todos dat @ [todoData])
           in saveData (s1\<lparr>data := dat\<lparr>rs_todos := todos\<rparr>\<rparr>)))"

text \<open>The object literal that \<^verbatim>\<open>getAllTodos\<close> builds from a stored record.\<close>

definition toTodoItem :: "todoData \<Rightarrow> todoItem" where
  "toTodoItem todo =
     \<lparr>t_id = td_id todo, t_content = td_content todo, t_status = td_status todo,
      t_priority = td_priority todo,
      t_createdAt = newDate (td_createdAt todo), t_updatedAt = newDate (td_updatedAt todo)\<rparr>"

definition getAllTodos :: "excelStorage \<Rightarrow> excelStorage \<times> (error + todoItem list)" where
  "getAllTodos s =
     (case loadData s of
        (s1, Inl e) \<Rightarrow> (s1, Inl e)
      | (s1, Inr dat) \<Rightarrow> (s1, Inr (map toTodoItem (rs_todos dat))))"

definition deleteTodo :: "string \<Rightarrow> excelStorage \<Rightarrow> excelStorage \<times> (error + unit)" where
  "deleteTodo i s =
     (case loadData s of
        (s1, Inl e) \<Rightarrow> (s1, Inl e)
      | (s1, Inr dat) \<Rightarrow>
          saveData (s1\<lparr>data := dat\<lparr>rs_todos := filter (\<lambda>todo. td_id todo \<noteq> i) (rs_todos dat)\<rparr>\<rparr>))"

definition updateTodo :: "todoItem \<Rightarrow> excelStorage \<Rightarrow> excelStorage \<times> (error + unit)" where
  "updateTodo todo s = saveTodo todo s"

text \<open>The adapter as the module creates it: nothing loaded yet.\<close>

definition newExcelStorage :: "blob option \<Rightarrow> (blob \<Rightarrow> bool) \<Rightarrow> excelStorage" where
  "newExcelStorage item ok = \<lparr>stored = item, accepts = ok, data = emptyData\<rparr>"

section \<open>Regular expressions of the command extractor\<close>

text \<open>
  The two commands are recognised with regular expression literals, all with the flag
  \<^verbatim>\<open>i\<close>. The patterns use literals, character classes, alternatives, the greedy
  quantifiers \<^verbatim>\<open>+\<close> and \<^verbatim>\<open>*\<close> on a character class, \<^verbatim>\<open>?\<close> and one capture group.
  \<open>run\<close> gives every way to match a pattern at the start of a text, in the order in
  which the backtracking matcher of ECMAScript tries them: the first element is the match
  it reports. A way to match is the text left over and the text of group 1.
\<close>

datatype regex =
    Eps
  | Lit string
  | Cls "char \<Rightarrow> bool"
  | Seq regex regex
  | Alt regex regex
  | Opt regex
  | Many0 "char \<Rightarrow> bool"
  | Many1 "char \<Rightarrow> bool"
  | Group regex

text \<open>
  Canonicalize of a code unit under the flag \<^verbatim>\<open>i\<close>: its upper-case form. The two units
  below 256 whose upper-case form lies above (U+00B5, U+00FF) keep themselves here; their
  canonical forms are shared with no other unit below 256.
\<close>

definition canonicalize :: "char \<Rightarrow> char" where
  "canonicalize c = (case map_of (zip lowerCaseUnits upperCaseUnits) c of Some u \<Rightarrow> u | None \<Rightarrow> c)"

fun greedy :: "(char \<Rightarrow> bool) \<Rightarrow> string \<Rightarrow> string list" where
  "greedy p [] = [[]]"
| "greedy p (x # xs) = (if p x then greedy p xs @ [x # xs] else [x # xs])"

primrec run :: "regex \<Rightarrow> string \<Rightarrow> string option \<Rightarrow> (string \<times> string option) list" where
  "run Eps s c = [(s, c)]"
| "run (Lit w) s c =
     (if map canonicalize (take (length w) s) = map canonicalize w
      then [(drop (length w) s, c)] else [])"
| "run (Cls p) s c = (case s of [] \<Rightarrow> [] | x # xs \<Rightarrow> if p x then [(xs, c)] else [])"
| "run (Seq a b) s c = concat (map (\<lambda>m. run b (fst m) (snd m)) (run a s c))"
| "run (Alt a b) s c = run a s c @ run b s c"
| "run (Opt a) s c = run a s c @ [(s, c)]"
| "run (Many0 p) s c = map (\<lambda>s'. (s', c)) (greedy p s)"
| "run (Many1 p) s c =
     (case s of [] \<Rightarrow> [] | x # xs \<Rightarrow> if p x then map (\<lambda>s'. (s', c)) (greedy p xs) else [])"
| "run (Group a) s c = map (\<lambda>m. (fst m, Some (take (length s - length (fst m)) s))) (run a s c)"

text \<open>
  \<^verbatim>\<open>text.match(pattern)\<close> for a pattern without the flag \<^verbatim>\<open>g\<close>: the first match at the
  leftmost position that has one. \<open>None\<close> is \<^verbatim>\<open>null\<close>; of the match array the code reads
  only element 1, the text of group 1 (\<open>None\<close> for \<^verbatim>\<open>undefined\<close>).
\<close>

fun match :: "regex \<Rightarrow> string \<Rightarrow> string option option" where
  "match r [] = (case run r [] None of [] \<Rightarrow> None | m # _ \<Rightarrow> Some (snd m))"
| "match r (x # xs) = (case run r (x # xs) None of [] \<Rightarrow> match r xs | m # _ \<Rightarrow> Some (snd m))"

definition Seqs :: "regex list \<Rightarrow> regex" where
  "Seqs rs = foldr Seq rs Eps"

text \<open>The class \<^verbatim>\<open>\s\<close>, which is also what \<^verbatim>\<open>trim\<close> removes, on the units below 256.\<close>

definition isSpace :: "char \<Rightarrow> bool" where
  "isSpace c = (c \<in> set [CHR 0x09, CHR 0x0A, CHR 0x0B, CHR 0x0C, CHR 0x0D, CHR 0x20, CHR 0xA0])"

definition isQuote :: "char \<Rightarrow> bool" where
  "isQuote c = (c = CHR 0x22 \<or> c = CHR 0x27)"

definition notQuoteOrNewline :: "char \<Rightarrow> bool" where
  "notQuoteOrNewline c = (c \<noteq> CHR 0x22 \<and> c \<noteq> CHR 0x27 \<and> c \<noteq> CHR 0x0A)"

definition notNewline :: "char \<Rightarrow> bool" where
  "notNewline c = (c \<noteq> CHR 0x0A)"

definition trim :: "string \<Rightarrow> string" where
  "trim s = rev (dropWhile isSpace (rev (dropWhile isSpace s)))"

text \<open>
  \<^verbatim>\<open>/(?:create|new|add)\s+document\s+(?:titled|called|named)?\s*["']?([^"'\n]+)["']?/i\<close>
\<close>

definition titlePattern :: regex where
  "titlePattern =
     Seqs [Alt (Lit ''create'') (Alt (Lit ''new'') (Lit ''add'')), Many1 isSpace,
           Lit ''document'', Many1 isSpace,
           Opt (Alt (Lit ''titled'') (Alt (Lit ''called'') (Lit ''named''))), Many0 isSpace,
           Opt (Cls isQuote), Group (Many1 notQuoteOrNewline), Opt (Cls isQuote)]"

text \<open>\<^verbatim>\<open>/(?:create|add|new)\s+todo\s+["']?([^"'\n]+)["']?/i\<close>\<close>

definition todoPattern :: regex where
  "todoPattern =
     Seqs [Alt (Lit ''create'') (Alt (Lit ''add'') (Lit ''new'')), Many1 isSpace,
           Lit ''todo'', Many1 isSpace,
           Opt (Cls isQuote), Group (Many1 notQuoteOrNewline), Opt (Cls isQuote)]"

text \<open>\<^verbatim>\<open>/remind me to\s+([^\n]+)/i\<close>\<close>

definition remindPattern :: regex where
  "remindPattern = Seqs [Lit ''remind me to'', Many1 isSpace, Group (Many1 notNewline)]"

section \<open>Command extractor: \<^verbatim>\<open>processAICommands\<close>\<close>

text \<open>
  The chat component works on the notepad state (through \<^verbatim>\<open>dispatch\<close>), on the storage
  adapter and on the clock.
\<close>

record world =
  w_notepad :: notepadState
  w_storage :: excelStorage
  w_clock :: clock

text \<open>\<^verbatim>\<open>Number.prototype.toString\<close> of an integer: its decimal digits.\<close>

fun digits :: "nat \<Rightarrow> string" where
  "digits n =
     (if n < 10 then [''0123456789'' ! n]
      else digits (n div 10) @ [''0123456789'' ! (n mod 10)])"

declare digits.simps [simp del]

definition toString :: "int \<Rightarrow> string" where
  "toString n = (if n < 0 then CHR ''-'' # digits (nat (- n)) else digits (nat n))"

text \<open>
  The object literal of \<^verbatim>\<open>createDocument\<close> reads the clock three times, in the order of
  its fields; \<^verbatim>\<open>dispatch\<close> runs the reducer; then the document is saved.
\<close>

definition createDocument :: "string \<Rightarrow> string \<Rightarrow> world \<Rightarrow> world \<times> (error + document)" where
  "createDocument title content w =
     (let c0 = w_clock w; c1 = tick c0; c2 = tick c1; c3 = tick c2;
          newDocument = \<lparr>d_id = toString (now c0), d_title = title, d_content = content,
                          d_createdAt = now c1, d_updatedAt = now c2, d_tags = []\<rparr>;
          (notepad, c4) = notepadReducer (w_notepad w) (ADD_DOCUMENT newDocument) c3;
          (storage, saved) = saveDocument newDocument (w_storage w);
          w' = \<lparr>w_notepad = notepad, w_storage = storage, w_clock = c4\<rparr>
      in case saved of Inl e \<Rightarrow> (w', Inl e) | Inr u \<Rightarrow> (w', Inr newDocument))"

definition createTodo :: "string \<Rightarrow> priority \<Rightarrow> world \<Rightarrow> world \<times> (error + todoItem)" where
  "createTodo content prio w =
     (let c0 = w_clock w; c1 = tick c0; c2 = tick c1; c3 = tick c2;
          newTodo = \<lparr>t_id = toString (now c0), t_content = content, t_status = pending,
                      t_priority = prio, t_createdAt = now c1, t_updatedAt = now c2\<rparr>;
          (storage, saved) = saveTodo newTodo (w_storage w);
          w' = w\<lparr>w_storage := storage, w_clock := c3\<rparr>
      in case saved of Inl e \<Rightarrow> (w', Inl e) | Inr u \<Rightarrow> (w', Inr newTodo))"

text \<open>
  What \<^verbatim>\<open>processAICommands\<close> returns: one of its two confirmation templates, with the
  texts put into it, or the assistant's reply as it came. (The templates start with
  U+2705, a code unit above 255.)
\<close>

datatype reply =
    DocumentCreated string
  | TodoAdded string priority
  | AiResponse string

text \<open>
  The first \<^verbatim>\<open>if\<close> of \<^verbatim>\<open>processAICommands\<close>, "check for document creation requests":
  \<open>Some\<close> when it returns (or throws), \<open>None\<close> when control goes on to the next
  statement.
\<close>

definition documentRequest ::
  "string \<Rightarrow> string \<Rightarrow> world \<Rightarrow> (world \<times> (error + reply)) option" where
  "documentRequest userInput lowerInput w =
     (if includes_js lowerInput ''create document'' \<or> includes_js lowerInput ''new document'' \<or>
         includes_js lowerInput ''add document''
      then (case match titlePattern userInput of
              None \<Rightarrow> None
            | Some None \<Rightarrow> Some (w, Inl TypeError)
            | Some (Some group1) \<Rightarrow>
                (let title = trim group1
                 in case createDocument title [] w of
                      (w', Inl e) \<Rightarrow> Some (w', Inl e)
                    | (w', Inr d) \<Rightarrow> Some (w', Inr (DocumentCreated title))))
      else None)"

text \<open>The second \<^verbatim>\<open>if\<close>, "check for todo creation requests".\<close>

definition todoRequest ::
  "string \<Rightarrow> string \<Rightarrow> world \<Rightarrow> (world \<times> (error + reply)) option" where
  "todoRequest userInput lowerInput w =
     (if includes_js lowerInput ''create todo'' \<or> includes_js lowerInput ''add todo'' \<or>
         includes_js lowerInput ''new todo'' \<or> includes_js lowerInput ''remind me''
      then (case (case match todoPattern userInput of
                    Some m \<Rightarrow> Some m
                  | None \<Rightarrow> match remindPattern userInput) of
              None \<Rightarrow> None
            | Some None \<Rightarrow> Some (w, Inl TypeError)
            | Some (Some group1) \<Rightarrow>
                (let todoText = trim group1;
                     prio = (if includes_js lowerInput ''urgent'' \<or> includes_js lowerInput ''important''
                             then high
                             else if includes_js lowerInput ''low priority'' then low else medium)
                 in case createTodo todoText prio w of
                      (w', Inl e) \<Rightarrow> Some (w', Inl e)
                    | (w', Inr t) \<Rightarrow> Some (w', Inr (TodoAdded todoText prio))))
      else None)"

definition processAICommands :: "string \<Rightarrow> string \<Rightarrow> world \<Rightarrow> world \<times> (error + reply)" where
  "processAICommands userInput aiResponse w =
     (let lowerInput = toLowerCase userInput
      in case documentRequest userInput lowerInput w of
           Some r \<Rightarrow> r
         | None \<Rightarrow>
             (case todoRequest userInput lowerInput w of
                Some r \<Rightarrow> r
              | None \<Rightarrow> (w, Inr (AiResponse aiResponse))))"

section \<open>Notions used to state the properties\<close>

text \<open>
  What the adapter reads in a state: the record set \<^verbatim>\<open>loadData\<close> returns there, or the
  error it throws. This is the adapter's view, from which every operation starts: the
  record set of the stored text when one that parses is stored, and the record set in
  memory when no item or the empty text is stored. It is not the stored text.
\<close>

definition loaded :: "excelStorage \<Rightarrow> error + recordSet" where
  "loaded s = snd (loadData s)"

text \<open>
  The documents and the todos in the stored text, the serialized blob: \<open>None\<close> when no
  record set is stored (no item, the empty text, or a text that does not parse).
\<close>

definition blobDocuments :: "excelStorage \<Rightarrow> docData list option" where
  "blobDocuments s =
     (case stored s of
        None \<Rightarrow> None
      | Some EmptyText \<Rightarrow> None
      | Some Unparsable \<Rightarrow> None
      | Some (Json d) \<Rightarrow> Some (rs_documents d))"

definition blobTodos :: "excelStorage \<Rightarrow> todoData list option" where
  "blobTodos s =
     (case stored s of
        None \<Rightarrow> None
      | Some EmptyText \<Rightarrow> None
      | Some Unparsable \<Rightarrow> None
      | Some (Json d) \<Rightarrow> Some (rs_todos d))"

text \<open>
  Save with overwrite, in the words of the specification: replace the record with the
  matching id if present, else append.
\<close>

fun saveWithOverwrite :: "todoData \<Rightarrow> todoData list \<Rightarrow> todoData list" where
  "saveWithOverwrite new [] = [new]"
| "saveWithOverwrite new (r # rs) =
     (if td_id r = td_id new then new # rs else r # saveWithOverwrite new rs)"

text \<open>Sample values for the concrete instances below.\<close>

definition acceptAll :: "blob \<Rightarrow> bool" where
  "acceptAll b = True"

definition refuseAll :: "blob \<Rightarrow> bool" where
  "refuseAll b = False"

definition steadyClock :: clock where
  "steadyClock n = 1000"

definition sampleDocument :: document where
  "sampleDocument =
     \<lparr>d_id = ''1'', d_title = ''Plan'', d_content = ''first draft'', d_createdAt = 2000,
      d_updatedAt = 2000, d_tags = [''work'', ''work'']\<rparr>"

definition otherDocument :: document where
  "otherDocument =
     \<lparr>d_id = ''2'', d_title = ''Notes'', d_content = [], d_createdAt = 500,
      d_updatedAt = 700, d_tags = []\<rparr>"

definition sampleTodo :: todoItem where
  "sampleTodo =
     \<lparr>t_id = ''7'', t_content = ''call the dentist'', t_status = pending, t_priority = medium,
      t_createdAt = 900, t_updatedAt = 900\<rparr>"

definition sampleState :: notepadState where
  "sampleState =
     \<lparr>documents = [otherDocument, sampleDocument], activeDocumentId = Some ''1'',
      isPreviewMode = False, searchQuery = []\<rparr>"

definition sampleStorage :: excelStorage where
  "sampleStorage =
     \<lparr>stored = Some (Json \<lparr>rs_documents = [docDataOf otherDocument],
                             rs_todos = [todoDataOf sampleTodo]\<rparr>),
      accepts = acceptAll, data = emptyData\<rparr>"

text \<open>
  An adapter with nothing stored whose record set in memory holds a document and a todo:
  the state after a \<^verbatim>\<open>saveDocument\<close> and a \<^verbatim>\<open>saveTodo\<close> on an empty store whose
  writes the storage refused (apart from the storage accepting writes again).
\<close>

definition staleStorage :: excelStorage where
  "staleStorage =
     \<lparr>stored = None, accepts = acceptAll,
      data = \<lparr>rs_documents = [docDataOf sampleDocument], rs_todos = [todoDataOf sampleTodo]\<rparr>\<rparr>"

definition staleWorld :: world where
  "staleWorld = \<lparr>w_notepad = sampleState, w_storage = staleStorage, w_clock = steadyClock\<rparr>"

definition sampleWorld :: world where
  "sampleWorld = \<lparr>w_notepad = sampleState, w_storage = sampleStorage, w_clock = steadyClock\<rparr>"

text \<open>
  An intent matches a message when one of its trigger phrases is in the lower-cased
  message and its pattern matches the message.
\<close>

definition documentIntent :: "string \<Rightarrow> bool" where
  "documentIntent userInput =
     ((includes_js (toLowerCase userInput) ''create document'' \<or>
       includes_js (toLowerCase userInput) ''new document'' \<or>
       includes_js (toLowerCase userInput) ''add document'') \<and>
      match titlePattern userInput \<noteq> None)"

definition todoIntent :: "string \<Rightarrow> bool" where
  "todoIntent userInput =
     ((includes_js (toLowerCase userInput) ''create todo'' \<or>
       includes_js (toLowerCase userInput) ''add todo'' \<or>
       includes_js (toLowerCase userInput) ''new todo'' \<or>
       includes_js (toLowerCase userInput) ''remind me'') \<and>
      (match todoPattern userInput \<noteq> None \<or> match remindPattern userInput \<noteq> None))"

text \<open>
  The priority in the words of the specification: high if the message contains "urgent"
  or "important", low if it contains "low priority", medium otherwise; the message is
  read without regard to letter case.
\<close>

definition statedPriority :: "string \<Rightarrow> priority" where
  "statedPriority userInput =
     (if includes_js (toLowerCase userInput) ''urgent'' \<or>
         includes_js (toLowerCase userInput) ''important''
      then high
      else if includes_js (toLowerCase userInput) ''low priority'' then low else medium)"

text \<open>
  The text \<open>g\<close> follows "remind me to" in the message: the phrase, in any letter case,
  then white space, then \<open>g\<close>, which is not empty, has no line feed and runs to the end
  of its line.
\<close>

definition remindCapture :: "string \<Rightarrow> string \<Rightarrow> bool" where
  "remindCapture userInput g =
     (\<exists>pre kw ws post.
        userInput = pre @ kw @ ws @ g @ post \<and>
        map canonicalize kw = map canonicalize ''remind me to'' \<and>
        ws \<noteq> [] \<and> list_all isSpace ws \<and>
        g \<noteq> [] \<and> list_all notNewline g \<and>
        (post = [] \<or> \<not> notNewline (hd post)))"

text \<open>
  The text \<open>g\<close> follows the create, add or new todo phrase in the message: the verb and
  "todo", in any letter case, each followed by white space, then possibly one quote
  character, then \<open>g\<close>, which is not empty, has no quote character and no line feed and
  runs up to the next one or to the end of the message.
\<close>

definition todoCapture :: "string \<Rightarrow> string \<Rightarrow> bool" where
  "todoCapture userInput g =
     (\<exists>pre verb ws1 noun ws2 q post.
        userInput = pre @ verb @ ws1 @ noun @ ws2 @ q @ g @ post \<and>
        (map canonicalize verb = map canonicalize ''create'' \<or>
         map canonicalize verb = map canonicalize ''add'' \<or>
         map canonicalize verb = map canonicalize ''new'') \<and>
        ws1 \<noteq> [] \<and> list_all isSpace ws1 \<and>
        map canonicalize noun = map canonicalize ''todo'' \<and>
        ws2 \<noteq> [] \<and> list_all isSpace ws2 \<and>
        (q = [] \<or> (\<exists>x. q = [x] \<and> isQuote x)) \<and>
        g \<noteq> [] \<and> list_all notQuoteOrNewline g \<and>
        (post = [] \<or> \<not> notQuoteOrNewline (hd post)))"

text \<open>
  The extractor, run on a message, a reply and a world, creates a todo item with the
  given content and priority: it leaves the notepad state alone and does what
  \<^verbatim>\<open>createTodo\<close> does with that content and priority, answering with the confirmation
  for them unless the save throws; the save does not throw on a store that parses and
  accepts the write; and once the confirmation is returned, the todos in the stored text
  hold a pending record with that content and priority.
\<close>

definition createsTodo :: "string \<Rightarrow> string \<Rightarrow> world \<Rightarrow> string \<Rightarrow> priority \<Rightarrow> bool" where
  "createsTodo userInput aiResponse w content prio =
     (w_notepad (fst (processAICommands userInput aiResponse w)) = w_notepad w \<and>
      processAICommands userInput aiResponse w =
        (case createTodo content prio w of
           (w', Inl e) \<Rightarrow> (w', Inl e)
         | (w', Inr t) \<Rightarrow> (w', Inr (TodoAdded content prio))) \<and>
      (stored (w_storage w) \<noteq> Some Unparsable \<and> (\<forall>b. accepts (w_storage w) b) \<longrightarrow>
         snd (processAICommands userInput aiResponse w) = Inr (TodoAdded content prio)) \<and>
      (snd (processAICommands userInput aiResponse w) = Inr (TodoAdded content prio) \<longrightarrow>
         (\<exists>todos t. blobTodos (w_storage (fst (processAICommands userInput aiResponse w))) =
                      Some todos \<and>
                    t \<in> set todos \<and> td_content t = content \<and> td_priority t = prio \<and>
                    td_status t = pending)))"

section \<open>The reducer\<close>

lemma updateDocuments_length:
  "length (fst (updateDocuments i c t docs clk)) = length docs"
  by (induction docs arbitrary: clk) (simp_all add: Let_def case_prod_beta)

lemma updateDocuments_nth:
  "k < length docs \<Longrightarrow>
   fst (updateDocuments i c t docs clk) ! k =
     (if d_id (docs ! k) = i
      then (docs ! k)\<lparr>d_content := c, d_title := t,
              d_updatedAt := clk (length (filter (\<lambda>d. d_id d = i) (take k docs)))\<rparr>
      else docs ! k)"
proof (induction docs arbitrary: clk k)
  case Nil
  then show ?case by simp
next
  case (Cons d ds)
  show ?case
  proof (cases k)
    case 0
    then show ?thesis by (simp add: Let_def now_def case_prod_beta)
  next
    case (Suc j)
    with Cons.prems have j: "j < length ds" by simp
    from Cons.IH [OF j] Suc show ?thesis
      by (simp add: Let_def tick_def case_prod_beta)
  qed
qed

lemma updateDocuments_absent:
  "\<forall>d \<in> set docs. d_id d \<noteq> i \<Longrightarrow> updateDocuments i c t docs clk = (docs, clk)"
  by (induction docs arbitrary: clk) auto

lemma notepadReducer_update:
  "notepadReducer state (UPDATE_DOCUMENT i c t) clk =
     (state\<lparr>documents := fst (updateDocuments i c t (documents state) clk)\<rparr>,
      snd (updateDocuments i c t (documents state) clk))"
  by (simp add: case_prod_beta)

text \<open>
  Claim C6, as the code has it. \<^verbatim>\<open>UPDATE_DOCUMENT\<close> keeps the length and the order of
  the collection. A document with the given id gets the given title and content, and as
  \<open>updatedAt\<close> the clock reading taken for it (the \<open>n\<close>-th reading for the document
  with \<open>n\<close> matching documents before it); its other fields stay. So its new
  \<open>updatedAt\<close> is at least the prior one exactly when that reading is. A document with
  another id stays as it is, and when no document has the id the state is unchanged.
\<close>

theorem update_document_fields:
  "length (documents (fst (notepadReducer state (UPDATE_DOCUMENT i c t) clk))) =
     length (documents state) \<and>
   (\<forall>k < length (documents state).
      documents (fst (notepadReducer state (UPDATE_DOCUMENT i c t) clk)) ! k =
        (if d_id (documents state ! k) = i
         then (documents state ! k)\<lparr>d_content := c, d_title := t,
                d_updatedAt :=
                  clk (length (filter (\<lambda>d. d_id d = i) (take k (documents state))))\<rparr>
         else documents state ! k)) \<and>
   (\<forall>k < length (documents state). d_id (documents state ! k) = i \<longrightarrow>
      (d_updatedAt (documents state ! k) \<le>
         d_updatedAt (documents (fst (notepadReducer state (UPDATE_DOCUMENT i c t) clk)) ! k)) =
      (d_updatedAt (documents state ! k) \<le>
         clk (length (filter (\<lambda>d. d_id d = i) (take k (documents state)))))) \<and>
   ((\<forall>d \<in> set (documents state). d_id d \<noteq> i) \<longrightarrow>
      notepadReducer state (UPDATE_DOCUMENT i c t) clk = (state, clk))"
proof -
  have absent: "(\<forall>d \<in> set (documents state). d_id d \<noteq> i) \<longrightarrow>
      notepadReducer state (UPDATE_DOCUMENT i c t) clk = (state, clk)"
    by (simp add: updateDocuments_absent)
  show ?thesis
    using absent unfolding notepadReducer_update
    by (simp add: updateDocuments_length updateDocuments_nth)
qed

theorem update_document_fields_witness:
  "documents (fst (notepadReducer sampleState (UPDATE_DOCUMENT ''1'' ''second draft'' ''Plan B'')
       steadyClock)) =
     [otherDocument,
      sampleDocument\<lparr>d_content := ''second draft'', d_title := ''Plan B'', d_updatedAt := 1000\<rparr>] \<and>
   notepadReducer sampleState (UPDATE_DOCUMENT ''3'' ''second draft'' ''Plan B'') steadyClock =
     (sampleState, steadyClock)"
  using update_document_fields [of sampleState "''1''" "''second draft''" "''Plan B''" steadyClock]
    update_document_fields [of sampleState "''3''" "''second draft''" "''Plan B''" steadyClock]
  by (simp add: sampleState_def sampleDocument_def otherDocument_def steadyClock_def now_def
      tick_def)

theorem update_document_counterexample:
  "\<not> d_updatedAt sampleDocument \<le>
     d_updatedAt (documents (fst (notepadReducer sampleState
       (UPDATE_DOCUMENT ''1'' ''second draft'' ''Plan B'') steadyClock)) ! 1)"
  by (simp add: sampleState_def sampleDocument_def otherDocument_def steadyClock_def now_def)

text \<open>
  Claim C7. \<^verbatim>\<open>DELETE_DOCUMENT\<close> keeps exactly the documents with another id, in their
  order, so none with the given id is left; the active id becomes null when it is the
  given id and stays as it is otherwise.
\<close>

theorem delete_document_removes:
  "documents (fst (notepadReducer state (DELETE_DOCUMENT i) clk)) =
     filter (\<lambda>doc. d_id doc \<noteq> i) (documents state) \<and>
   (\<forall>doc \<in> set (documents (fst (notepadReducer state (DELETE_DOCUMENT i) clk))). d_id doc \<noteq> i) \<and>
   (activeDocumentId state = Some i \<longrightarrow>
      activeDocumentId (fst (notepadReducer state (DELETE_DOCUMENT i) clk)) = None) \<and>
   (activeDocumentId state \<noteq> Some i \<longrightarrow>
      activeDocumentId (fst (notepadReducer state (DELETE_DOCUMENT i) clk)) =
        activeDocumentId state)"
  by simp

theorem delete_document_removes_witness:
  "documents (fst (notepadReducer sampleState (DELETE_DOCUMENT ''1'') steadyClock)) =
     [otherDocument] \<and>
   activeDocumentId sampleState = Some ''1'' \<and>
   activeDocumentId (fst (notepadReducer sampleState (DELETE_DOCUMENT ''1'') steadyClock)) = None \<and>
   documents (fst (notepadReducer sampleState (DELETE_DOCUMENT ''2'') steadyClock)) =
     [sampleDocument] \<and>
   activeDocumentId sampleState \<noteq> Some ''2'' \<and>
   activeDocumentId (fst (notepadReducer sampleState (DELETE_DOCUMENT ''2'') steadyClock)) =
     Some ''1''"
proof -
  have active: "activeDocumentId sampleState = Some ''1''"
    and other: "activeDocumentId sampleState \<noteq> Some ''2''"
    by (simp_all add: sampleState_def)
  have kept1: "filter (\<lambda>doc. d_id doc \<noteq> ''1'') (documents sampleState) = [otherDocument]"
    and kept2: "filter (\<lambda>doc. d_id doc \<noteq> ''2'') (documents sampleState) = [sampleDocument]"
    by (simp_all add: sampleState_def sampleDocument_def otherDocument_def)
  note first = delete_document_removes [of sampleState "''1''" steadyClock]
  note second = delete_document_removes [of sampleState "''2''" steadyClock]
  from first kept1 have d1:
    "documents (fst (notepadReducer sampleState (DELETE_DOCUMENT ''1'') steadyClock)) =
       [otherDocument]"
    by (elim conjE) (rule trans)
  from first active have a1:
    "activeDocumentId (fst (notepadReducer sampleState (DELETE_DOCUMENT ''1'') steadyClock)) = None"
    by blast
  from second kept2 have d2:
    "documents (fst (notepadReducer sampleState (DELETE_DOCUMENT ''2'') steadyClock)) =
       [sampleDocument]"
    by (elim conjE) (rule trans)
  from second other have
    "activeDocumentId (fst (notepadReducer sampleState (DELETE_DOCUMENT ''2'') steadyClock)) =
       activeDocumentId sampleState"
    by blast
  then have a2:
    "activeDocumentId (fst (notepadReducer sampleState (DELETE_DOCUMENT ''2'') steadyClock)) =
       Some ''1''"
    by (simp only: active)
  from d1 active a1 d2 other a2 show ?thesis by blast
qed

section \<open>The persistence adapter\<close>

lemma findIndex_ge: "- 1 \<le> findIndex p xs"
  by (induction xs) (auto simp: Let_def)

lemma findIndex_neg_iff: "findIndex p xs < 0 \<longleftrightarrow> (\<forall>x \<in> set xs. \<not> p x)"
  using findIndex_ge [of p] by (induction xs) (auto simp: Let_def)

lemma find_upsert:
  "p y \<Longrightarrow>
   find p (if findIndex p xs \<ge> 0 then xs[nat (findIndex p xs) := y] else xs @ [y]) = Some y"
proof (induction xs)
  case Nil
  then show ?case by simp
next
  case (Cons x xs)
  show ?case
  proof (cases "p x")
    case True
    with Cons.prems show ?thesis by simp
  next
    case False
    show ?thesis
    proof (cases "findIndex p xs < 0")
      case True
      with False Cons show ?thesis by (simp add: Let_def)
    next
      case nonneg: False
      then have "nat (findIndex p xs + 1) = Suc (nat (findIndex p xs))" by simp
      with False nonneg Cons show ?thesis by (simp add: Let_def)
    qed
  qed
qed

lemma upsert_is_saveWithOverwrite:
  "(if findIndex (\<lambda>t. td_id t = td_id new) rs \<ge> 0
    then rs[nat (findIndex (\<lambda>t. td_id t = td_id new) rs) := new] else rs @ [new]) =
   saveWithOverwrite new rs"
proof (induction rs)
  case Nil
  then show ?case by simp
next
  case (Cons r rs)
  show ?case
  proof (cases "td_id r = td_id new")
    case True
    then show ?thesis by simp
  next
    case False
    show ?thesis
    proof (cases "findIndex (\<lambda>t. td_id t = td_id new) rs < 0")
      case True
      with False Cons show ?thesis by (simp add: Let_def)
    next
      case nonneg: False
      then have "nat (findIndex (\<lambda>t. td_id t = td_id new) rs + 1) =
          Suc (nat (findIndex (\<lambda>t. td_id t = td_id new) rs))" by simp
      with False nonneg Cons show ?thesis by (simp add: Let_def)
    qed
  qed
qed

lemma loadData_unparsable: "stored s = Some Unparsable \<Longrightarrow> loadData s = (s, Inl SyntaxError)"
  by (simp add: loadData_def)

lemma loadData_json: "stored s = Some (Json d) \<Longrightarrow> loadData s = (s\<lparr>data := d\<rparr>, Inr d)"
  by (simp add: loadData_def)

lemma loadData_nothing:
  "stored s = None \<or> stored s = Some EmptyText \<Longrightarrow> loadData s = (s, Inr (data s))"
  by (auto simp: loadData_def)

lemma loadData_cases:
  "loadData s = (s, Inl SyntaxError) \<and> stored s = Some Unparsable \<or>
   (\<exists>d. loadData s = (s\<lparr>data := d\<rparr>, Inr d) \<and> stored s = Some (Json d)) \<or>
   loadData s = (s, Inr (data s)) \<and> stored s \<noteq> Some Unparsable \<and>
     (\<forall>d. stored s \<noteq> Some (Json d))"
proof (cases "stored s")
  case None
  then show ?thesis by (simp add: loadData_def)
next
  case (Some b)
  then show ?thesis by (cases b) (simp_all add: loadData_def)
qed

lemma loadData_keeps:
  "loadData s = (s1, r) \<Longrightarrow> stored s1 = stored s \<and> accepts s1 = accepts s"
  using loadData_cases [of s] by auto

lemma loadData_defined:
  "stored s \<noteq> Some Unparsable \<Longrightarrow> \<exists>s1 dat. loadData s = (s1, Inr dat)"
  using loadData_cases [of s] by auto

lemma saveData_cases:
  "saveData s = (if accepts s (Json (data s)) then (s\<lparr>stored := Some (Json (data s))\<rparr>, Inr ())
                 else (s, Inl QuotaExceededError))"
  by (simp add: saveData_def JSON_stringify_def Let_def)

lemma toDocument_docDataOf: "toDocument (docDataOf doc) = doc"
  by (simp add: toDocument_def docDataOf_def toISOString_def)

lemma get_after_save:
  assumes "find (\<lambda>d. dd_id d = i) (rs_documents dat) = Some r"
  shows "snd (getDocument i (s\<lparr>stored := Some (Json dat)\<rparr>)) = Inr (Some (toDocument r))"
  using assms by (simp add: getDocument_def loadData_json)

text \<open>
  Claim C1, as the code has it. \<^verbatim>\<open>loadData\<close> calls \<^verbatim>\<open>JSON.parse\<close> with no guard
  around it, and no read operation has one either. So when the stored text does not parse,
  each of the four read operations throws the parse error and leaves the adapter as it
  was; nothing is set back to empty. A read operation answers as for an empty store when
  nothing is stored under the key (no item, or the empty text) and the record set in
  memory is the empty one the adapter starts with.
\<close>

theorem read_operations_unparsable:
  "(stored s = Some Unparsable \<longrightarrow>
      getDocument i s = (s, Inl SyntaxError) \<and> getAllDocuments s = (s, Inl SyntaxError) \<and>
      getAllTodos s = (s, Inl SyntaxError) \<and> searchDocuments q s = (s, Inl SyntaxError)) \<and>
   ((stored s = None \<or> stored s = Some EmptyText) \<and> data s = emptyData \<longrightarrow>
      getDocument i s = (s, Inr None) \<and> getAllDocuments s = (s, Inr []) \<and>
      getAllTodos s = (s, Inr []) \<and> searchDocuments q s = (s, Inr []))"
proof (intro conjI impI)
  assume u: "stored s = Some Unparsable"
  show "getDocument i s = (s, Inl SyntaxError)"
    by (simp add: getDocument_def loadData_unparsable [OF u])
  show "getAllDocuments s = (s, Inl SyntaxError)"
    by (simp add: getAllDocuments_def loadData_unparsable [OF u])
  show "getAllTodos s = (s, Inl SyntaxError)"
    by (simp add: getAllTodos_def loadData_unparsable [OF u])
  show "searchDocuments q s = (s, Inl SyntaxError)"
    by (simp add: searchDocuments_def getAllDocuments_def loadData_unparsable [OF u])
next
  assume "(stored s = None \<or> stored s = Some EmptyText) \<and> data s = emptyData"
  then have l: "loadData s = (s, Inr emptyData)"
    using loadData_nothing [of s] by simp
  show "getDocument i s = (s, Inr None)"
    by (simp add: getDocument_def l emptyData_def)
  show "getAllDocuments s = (s, Inr [])"
    by (simp add: getAllDocuments_def l emptyData_def)
  show "getAllTodos s = (s, Inr [])"
    by (simp add: getAllTodos_def l emptyData_def)
  show "searchDocuments q s = (s, Inr [])"
    by (simp add: searchDocuments_def getAllDocuments_def l emptyData_def)
qed

theorem read_operations_unparsable_witness:
  "stored (newExcelStorage (Some Unparsable) acceptAll) = Some Unparsable \<and>
   getAllDocuments (newExcelStorage (Some Unparsable) acceptAll) =
     (newExcelStorage (Some Unparsable) acceptAll, Inl SyntaxError) \<and>
   stored (newExcelStorage None acceptAll) = None \<and>
   data (newExcelStorage None acceptAll) = emptyData \<and>
   getAllDocuments (newExcelStorage None acceptAll) = (newExcelStorage None acceptAll, Inr [])"
proof -
  have bad: "stored (newExcelStorage (Some Unparsable) acceptAll) = Some Unparsable"
    and none: "stored (newExcelStorage None acceptAll) = None"
    and empty: "data (newExcelStorage None acceptAll) = emptyData"
    by (simp_all add: newExcelStorage_def)
  from read_operations_unparsable [of "newExcelStorage (Some Unparsable) acceptAll"] bad
  have 1: "getAllDocuments (newExcelStorage (Some Unparsable) acceptAll) =
     (newExcelStorage (Some Unparsable) acceptAll, Inl SyntaxError)"
    by blast
  from read_operations_unparsable [of "newExcelStorage None acceptAll"] none empty
  have 2: "getAllDocuments (newExcelStorage None acceptAll) =
     (newExcelStorage None acceptAll, Inr [])"
    by blast
  from bad 1 none empty 2 show ?thesis by blast
qed

theorem read_operations_unparsable_counterexample:
  "snd (getDocument ''1'' (newExcelStorage (Some Unparsable) acceptAll)) = Inl SyntaxError \<and>
   snd (getAllDocuments (newExcelStorage (Some Unparsable) acceptAll)) = Inl SyntaxError \<and>
   snd (getAllTodos (newExcelStorage (Some Unparsable) acceptAll)) = Inl SyntaxError \<and>
   snd (searchDocuments ''plan'' (newExcelStorage (Some Unparsable) acceptAll)) = Inl SyntaxError"
  by (simp add: getDocument_def getAllDocuments_def getAllTodos_def searchDocuments_def
      loadData_def newExcelStorage_def)

text \<open>
  Claim C2, as the code has it. \<^verbatim>\<open>saveDocument\<close> has no guard around \<^verbatim>\<open>saveData\<close>,
  and \<^verbatim>\<open>saveData\<close> none around \<^verbatim>\<open>localStorage.setItem\<close>. When the load succeeds and
  the storage refuses the text that \<^verbatim>\<open>saveDocument\<close> writes, the error of the write is
  what \<^verbatim>\<open>saveDocument\<close> hands to its caller; the record set in memory has the document
  by then, the stored item is as before.
\<close>

theorem saveDocument_write_failure:
  assumes "loadData s = (s1, Inr dat)"
    and "k = findIndex (\<lambda>d. dd_id d = d_id doc) (rs_documents dat)"
    and "docs = (if k \<ge> 0 then (rs_documents dat)[nat k := docDataOf doc]
                 else rs_documents dat @ [docDataOf doc])"
    and "\<not> accepts s (JSON_stringify (dat\<lparr>rs_documents := docs\<rparr>))"
  shows "saveDocument doc s = (s1\<lparr>data := dat\<lparr>rs_documents := docs\<rparr>\<rparr>, Inl QuotaExceededError) \<and>
         stored s1 = stored s"
proof -
  have a: "accepts s1 = accepts s" and b: "stored s1 = stored s"
    using loadData_keeps [OF assms(1)] by simp_all
  have sd: "saveDocument doc s = saveData (s1\<lparr>data := dat\<lparr>rs_documents := docs\<rparr>\<rparr>)"
    unfolding assms(3) assms(2) by (simp add: saveDocument_def assms(1) Let_def)
  show ?thesis
    unfolding sd using assms(4) a b by (simp add: saveData_def)
qed

theorem saveDocument_write_failure_witness:
  "loadData (newExcelStorage None refuseAll) = (newExcelStorage None refuseAll, Inr emptyData) \<and>
   \<not> accepts (newExcelStorage None refuseAll)
       (JSON_stringify (emptyData\<lparr>rs_documents := [docDataOf sampleDocument]\<rparr>)) \<and>
   saveDocument sampleDocument (newExcelStorage None refuseAll) =
     ((newExcelStorage None refuseAll)
        \<lparr>data := emptyData\<lparr>rs_documents := [docDataOf sampleDocument]\<rparr>\<rparr>,
      Inl QuotaExceededError)"
proof -
  have l: "loadData (newExcelStorage None refuseAll) = (newExcelStorage None refuseAll, Inr emptyData)"
    by (simp add: loadData_def newExcelStorage_def)
  have k: "- 1 = findIndex (\<lambda>d. dd_id d = d_id sampleDocument) (rs_documents emptyData)"
    by (simp add: emptyData_def)
  have d: "[docDataOf sampleDocument] =
      (if (- 1 :: int) \<ge> 0 then (rs_documents emptyData)[nat (- 1) := docDataOf sampleDocument]
       else rs_documents emptyData @ [docDataOf sampleDocument])"
    by (simp add: emptyData_def)
  have r: "\<not> accepts (newExcelStorage None refuseAll)
       (JSON_stringify (emptyData\<lparr>rs_documents := [docDataOf sampleDocument]\<rparr>))"
    by (simp add: newExcelStorage_def refuseAll_def)
  from saveDocument_write_failure [OF l k d r] l r show ?thesis by blast
qed

theorem saveDocument_write_failure_counterexample:
  "snd (saveDocument sampleDocument (newExcelStorage None refuseAll)) = Inl QuotaExceededError"
  by (simp add: saveDocument_def loadData_def saveData_def newExcelStorage_def refuseAll_def
      emptyData_def Let_def)

text \<open>
  Claim C3. On a store whose item is not an unparsable text and whose storage accepts
  the write, \<^verbatim>\<open>saveDocument\<close> returns normally; and whenever it returns normally,
  \<^verbatim>\<open>getDocument\<close> with the document's id, called next, returns that document: id,
  title, content and tags as they are, and the two dates with their instants.
\<close>

theorem save_then_get_document:
  "(stored s \<noteq> Some Unparsable \<and> (\<forall>b. accepts s b) \<longrightarrow> snd (saveDocument doc s) = Inr ()) \<and>
   (snd (saveDocument doc s) = Inr () \<longrightarrow>
      snd (getDocument (d_id doc) (fst (saveDocument doc s))) = Inr (Some doc))"
proof (intro conjI impI)
  assume "stored s \<noteq> Some Unparsable \<and> (\<forall>b. accepts s b)"
  then obtain s1 dat where l: "loadData s = (s1, Inr dat)" and a: "\<forall>b. accepts s b"
    using loadData_defined by blast
  from loadData_keeps [OF l] a have "\<forall>b. accepts s1 b" by simp
  then show "snd (saveDocument doc s) = Inr ()"
    by (simp add: saveDocument_def l Let_def saveData_cases)
next
  assume ok: "snd (saveDocument doc s) = Inr ()"
  obtain s1 r where l: "loadData s = (s1, r)" by (cases "loadData s")
  from ok l obtain dat where r: "r = Inr dat"
    by (cases r) (simp_all add: saveDocument_def)
  define docs where "docs =
     (if findIndex (\<lambda>d. dd_id d = d_id doc) (rs_documents dat) \<ge> 0
      then (rs_documents dat)[nat (findIndex (\<lambda>d. dd_id d = d_id doc) (rs_documents dat)) :=
             docDataOf doc]
      else rs_documents dat @ [docDataOf doc])"
  have sd: "saveDocument doc s = saveData (s1\<lparr>data := dat\<lparr>rs_documents := docs\<rparr>\<rparr>)"
    by (simp add: saveDocument_def l r Let_def docs_def)
  have p: "dd_id (docDataOf doc) = d_id doc" by (simp add: docDataOf_def)
  have f: "find (\<lambda>d. dd_id d = d_id doc) docs = Some (docDataOf doc)"
    unfolding docs_def using p by (rule find_upsert)
  from ok have fs: "fst (saveDocument doc s) =
      s1\<lparr>data := dat\<lparr>rs_documents := docs\<rparr>, stored := Some (Json (dat\<lparr>rs_documents := docs\<rparr>))\<rparr>"
    unfolding sd by (simp add: saveData_cases split: if_splits)
  have "find (\<lambda>d. dd_id d = d_id doc) (rs_documents (dat\<lparr>rs_documents := docs\<rparr>)) =
      Some (docDataOf doc)"
    using f by simp
  from get_after_save [OF this] show
    "snd (getDocument (d_id doc) (fst (saveDocument doc s))) = Inr (Some doc)"
    unfolding fs by (simp add: toDocument_docDataOf)
qed

theorem save_then_get_document_witness:
  "stored sampleStorage \<noteq> Some Unparsable \<and> (\<forall>b. accepts sampleStorage b) \<and>
   snd (saveDocument sampleDocument sampleStorage) = Inr () \<and>
   snd (getDocument ''1'' (fst (saveDocument sampleDocument sampleStorage))) =
     Inr (Some sampleDocument)"
proof -
  have h: "stored sampleStorage \<noteq> Some Unparsable \<and> (\<forall>b. accepts sampleStorage b)"
    by (simp add: sampleStorage_def acceptAll_def)
  have i: "d_id sampleDocument = ''1''"
    by (simp add: sampleDocument_def)
  from save_then_get_document [of sampleStorage sampleDocument] h
  have ok: "snd (saveDocument sampleDocument sampleStorage) = Inr ()"
    by blast
  with save_then_get_document [of sampleStorage sampleDocument]
  have "snd (getDocument (d_id sampleDocument) (fst (saveDocument sampleDocument sampleStorage))) =
     Inr (Some sampleDocument)"
    by blast
  then have "snd (getDocument ''1'' (fst (saveDocument sampleDocument sampleStorage))) =
     Inr (Some sampleDocument)"
    by (simp only: i)
  with h ok show ?thesis by blast
qed

text \<open>
  Claim C9. \<^verbatim>\<open>updateTodo\<close> is \<^verbatim>\<open>saveTodo\<close>: the same adapter and the same outcome in
  every state. And it is a save with overwrite: when the load gives a record set, the
  record set in memory afterwards is that one with the todo's record put in place of the
  record with its id if there is one, else appended; when the call returns normally this
  is also the record set of the stored text, and what the adapter reads next.
\<close>

theorem updateTodo_save_with_overwrite:
  "updateTodo todo s = saveTodo todo s \<and>
   (\<forall>dat. loaded s = Inr dat \<longrightarrow>
      data (fst (updateTodo todo s)) =
        dat\<lparr>rs_todos := saveWithOverwrite (todoDataOf todo) (rs_todos dat)\<rparr> \<and>
      (snd (updateTodo todo s) = Inr () \<longrightarrow>
         loaded (fst (updateTodo todo s)) =
           Inr (dat\<lparr>rs_todos := saveWithOverwrite (todoDataOf todo) (rs_todos dat)\<rparr>) \<and>
         stored (fst (updateTodo todo s)) =
           Some (Json (dat\<lparr>rs_todos := saveWithOverwrite (todoDataOf todo) (rs_todos dat)\<rparr>))))"
proof -
  have i: "td_id (todoDataOf todo) = t_id todo" by (simp add: todoDataOf_def)
  have u: "\<And>rs. (if findIndex (\<lambda>t. td_id t = t_id todo) rs \<ge> 0
       then rs[nat (findIndex (\<lambda>t. td_id t = t_id todo) rs) := todoDataOf todo]
       else rs @ [todoDataOf todo]) = saveWithOverwrite (todoDataOf todo) rs"
    using upsert_is_saveWithOverwrite [of "todoDataOf todo"] unfolding i .
  from loadData_cases [of s] show ?thesis
  proof (elim disjE conjE exE)
    assume "loadData s = (s, Inl SyntaxError)" "stored s = Some Unparsable"
    then show ?thesis by (simp add: updateTodo_def loaded_def)
  next
    fix d assume l: "loadData s = (s\<lparr>data := d\<rparr>, Inr d)"
    show ?thesis
      by (simp add: updateTodo_def saveTodo_def l Let_def saveData_cases loaded_def
          loadData_json u)
  next
    assume l: "loadData s = (s, Inr (data s))"
    show ?thesis
      by (simp add: updateTodo_def saveTodo_def l Let_def saveData_cases loaded_def
          loadData_json u)
  qed
qed

theorem updateTodo_save_with_overwrite_witness:
  "loaded sampleStorage =
     Inr \<lparr>rs_documents = [docDataOf otherDocument], rs_todos = [todoDataOf sampleTodo]\<rparr> \<and>
   updateTodo (sampleTodo\<lparr>t_status := completed\<rparr>) sampleStorage =
     saveTodo (sampleTodo\<lparr>t_status := completed\<rparr>) sampleStorage \<and>
   snd (updateTodo (sampleTodo\<lparr>t_status := completed\<rparr>) sampleStorage) = Inr () \<and>
   loaded (fst (updateTodo (sampleTodo\<lparr>t_status := completed\<rparr>) sampleStorage)) =
     Inr \<lparr>rs_documents = [docDataOf otherDocument],
          rs_todos = [todoDataOf (sampleTodo\<lparr>t_status := completed\<rparr>)]\<rparr>"
proof -
  have p: "loaded sampleStorage =
     Inr \<lparr>rs_documents = [docDataOf otherDocument], rs_todos = [todoDataOf sampleTodo]\<rparr>"
    by (simp add: loaded_def loadData_def sampleStorage_def)
  have ok: "snd (saveTodo (sampleTodo\<lparr>t_status := completed\<rparr>) sampleStorage) = Inr ()"
    by (simp add: saveTodo_def loadData_def saveData_def sampleStorage_def acceptAll_def Let_def)
  have o: "\<lparr>rs_documents = [docDataOf otherDocument], rs_todos = [todoDataOf sampleTodo]\<rparr>
      \<lparr>rs_todos := saveWithOverwrite (todoDataOf (sampleTodo\<lparr>t_status := completed\<rparr>))
         (rs_todos \<lparr>rs_documents = [docDataOf otherDocument],
                    rs_todos = [todoDataOf sampleTodo]\<rparr>)\<rparr> =
     \<lparr>rs_documents = [docDataOf otherDocument],
      rs_todos = [todoDataOf (sampleTodo\<lparr>t_status := completed\<rparr>)]\<rparr>"
    by (simp add: todoDataOf_def)
  note t = updateTodo_save_with_overwrite [of "sampleTodo\<lparr>t_status := completed\<rparr>" sampleStorage]
  from t have e: "updateTodo (sampleTodo\<lparr>t_status := completed\<rparr>) sampleStorage =
     saveTodo (sampleTodo\<lparr>t_status := completed\<rparr>) sampleStorage"
    by (rule conjunct1)
  with ok have ok': "snd (updateTodo (sampleTodo\<lparr>t_status := completed\<rparr>) sampleStorage) = Inr ()"
    by simp
  from t p ok' have "loaded (fst (updateTodo (sampleTodo\<lparr>t_status := completed\<rparr>) sampleStorage)) =
     Inr (\<lparr>rs_documents = [docDataOf otherDocument], rs_todos = [todoDataOf sampleTodo]\<rparr>
      \<lparr>rs_todos := saveWithOverwrite (todoDataOf (sampleTodo\<lparr>t_status := completed\<rparr>))
         (rs_todos \<lparr>rs_documents = [docDataOf otherDocument],
                    rs_todos = [todoDataOf sampleTodo]\<rparr>)\<rparr>)"
    by blast
  then have "loaded (fst (updateTodo (sampleTodo\<lparr>t_status := completed\<rparr>) sampleStorage)) =
     Inr \<lparr>rs_documents = [docDataOf otherDocument],
          rs_todos = [todoDataOf (sampleTodo\<lparr>t_status := completed\<rparr>)]\<rparr>"
    by (simp only: o)
  with p e ok' show ?thesis by blast
qed

lemma frame_step:
  assumes "\<And>d. sel (upd d) = sel d"
  shows "map_sum id sel
     (loaded (fst (case loadData s of
        (s1, Inl e) \<Rightarrow> (s1, Inl e)
      | (s1, Inr dat) \<Rightarrow> saveData (s1\<lparr>data := upd dat\<rparr>)))) = map_sum id sel (loaded s)"
proof -
  from loadData_cases [of s] show ?thesis
  proof (elim disjE conjE exE)
    assume "loadData s = (s, Inl SyntaxError)" "stored s = Some Unparsable"
    then show ?thesis by (simp add: loaded_def)
  next
    fix d assume l: "loadData s = (s\<lparr>data := d\<rparr>, Inr d)" and st: "stored s = Some (Json d)"
    show ?thesis
      using assms st by (simp add: l saveData_cases loaded_def loadData_json)
  next
    assume l: "loadData s = (s, Inr (data s))"
      and n: "stored s \<noteq> Some Unparsable" "\<forall>d. stored s \<noteq> Some (Json d)"
    have k: "loadData (s\<lparr>data := upd (data s)\<rparr>) = (s\<lparr>data := upd (data s)\<rparr>, Inr (upd (data s)))"
    proof (cases "stored s")
      case None
      then show ?thesis by (simp add: loadData_def)
    next
      case (Some b)
      with n show ?thesis by (cases b) (simp_all add: loadData_def)
    qed
    show ?thesis
      using assms by (simp add: l saveData_cases loaded_def loadData_json k)
  qed
qed

lemma saveDocument_frame:
  "map_sum id rs_todos (loaded (fst (saveDocument doc s))) = map_sum id rs_todos (loaded s)"
  unfolding saveDocument_def Let_def by (rule frame_step) simp

lemma deleteDocument_frame:
  "map_sum id rs_todos (loaded (fst (deleteDocument i s))) = map_sum id rs_todos (loaded s)"
  unfolding deleteDocument_def by (rule frame_step) simp

lemma saveTodo_frame:
  "map_sum id rs_documents (loaded (fst (saveTodo todo s))) =
     map_sum id rs_documents (loaded s)"
  unfolding saveTodo_def Let_def by (rule frame_step) simp

lemma deleteTodo_frame:
  "map_sum id rs_documents (loaded (fst (deleteTodo i s))) =
     map_sum id rs_documents (loaded s)"
  unfolding deleteTodo_def by (rule frame_step) simp

lemma blob_step:
  assumes "\<And>d. sel (upd d) = sel d"
  shows "((case stored s of None \<Rightarrow> None | Some EmptyText \<Rightarrow> None | Some Unparsable \<Rightarrow> None
           | Some (Json d) \<Rightarrow> Some (sel d)) \<noteq> None \<longrightarrow>
          (case stored (fst (case loadData s of
                 (s1, Inl e) \<Rightarrow> (s1, Inl e)
               | (s1, Inr dat) \<Rightarrow> saveData (s1\<lparr>data := upd dat\<rparr>))) of
             None \<Rightarrow> None | Some EmptyText \<Rightarrow> None | Some Unparsable \<Rightarrow> None
           | Some (Json d) \<Rightarrow> Some (sel d)) =
          (case stored s of None \<Rightarrow> None | Some EmptyText \<Rightarrow> None | Some Unparsable \<Rightarrow> None
           | Some (Json d) \<Rightarrow> Some (sel d))) \<and>
         ((case stored s of None \<Rightarrow> None | Some EmptyText \<Rightarrow> None | Some Unparsable \<Rightarrow> None
           | Some (Json d) \<Rightarrow> Some (sel d)) = None \<longrightarrow>
          (case stored (fst (case loadData s of
                 (s1, Inl e) \<Rightarrow> (s1, Inl e)
               | (s1, Inr dat) \<Rightarrow> saveData (s1\<lparr>data := upd dat\<rparr>))) of
             None \<Rightarrow> None | Some EmptyText \<Rightarrow> None | Some Unparsable \<Rightarrow> None
           | Some (Json d) \<Rightarrow> Some (sel d)) = None \<or>
          (case stored (fst (case loadData s of
                 (s1, Inl e) \<Rightarrow> (s1, Inl e)
               | (s1, Inr dat) \<Rightarrow> saveData (s1\<lparr>data := upd dat\<rparr>))) of
             None \<Rightarrow> None | Some EmptyText \<Rightarrow> None | Some Unparsable \<Rightarrow> None
           | Some (Json d) \<Rightarrow> Some (sel d)) = Some (sel (data s)))"
proof -
  from loadData_cases [of s] show ?thesis
  proof (elim disjE conjE exE)
    assume "loadData s = (s, Inl SyntaxError)" "stored s = Some Unparsable"
    then show ?thesis by simp
  next
    fix d assume l: "loadData s = (s\<lparr>data := d\<rparr>, Inr d)" and st: "stored s = Some (Json d)"
    show ?thesis
      using assms st by (simp add: l saveData_cases)
  next
    assume l: "loadData s = (s, Inr (data s))"
      and n: "stored s \<noteq> Some Unparsable" "\<forall>d. stored s \<noteq> Some (Json d)"
    have none: "(case stored s of None \<Rightarrow> None | Some EmptyText \<Rightarrow> None
        | Some Unparsable \<Rightarrow> None | Some (Json d) \<Rightarrow> Some (sel d)) = None"
      using n by (simp split: option.splits blob.splits)
    show ?thesis
      unfolding none using assms by (simp add: l saveData_cases none)
  qed
qed

lemma saveDocument_blobTodos:
  "(blobTodos s \<noteq> None \<longrightarrow> blobTodos (fst (saveDocument doc s)) = blobTodos s) \<and>
   (blobTodos s = None \<longrightarrow>
      blobTodos (fst (saveDocument doc s)) = None \<or>
      blobTodos (fst (saveDocument doc s)) = Some (rs_todos (data s)))"
  unfolding saveDocument_def Let_def blobTodos_def by (rule blob_step) simp

lemma deleteDocument_blobTodos:
  "(blobTodos s \<noteq> None \<longrightarrow> blobTodos (fst (deleteDocument i s)) = blobTodos s) \<and>
   (blobTodos s = None \<longrightarrow>
      blobTodos (fst (deleteDocument i s)) = None \<or>
      blobTodos (fst (deleteDocument i s)) = Some (rs_todos (data s)))"
  unfolding deleteDocument_def blobTodos_def by (rule blob_step) simp

lemma saveTodo_blobDocuments:
  "(blobDocuments s \<noteq> None \<longrightarrow> blobDocuments (fst (saveTodo todo s)) = blobDocuments s) \<and>
   (blobDocuments s = None \<longrightarrow>
      blobDocuments (fst (saveTodo todo s)) = None \<or>
      blobDocuments (fst (saveTodo todo s)) = Some (rs_documents (data s)))"
  unfolding saveTodo_def Let_def blobDocuments_def by (rule blob_step) simp

lemma deleteTodo_blobDocuments:
  "(blobDocuments s \<noteq> None \<longrightarrow> blobDocuments (fst (deleteTodo i s)) = blobDocuments s) \<and>
   (blobDocuments s = None \<longrightarrow>
      blobDocuments (fst (deleteTodo i s)) = None \<or>
      blobDocuments (fst (deleteTodo i s)) = Some (rs_documents (data s)))"
  unfolding deleteTodo_def blobDocuments_def by (rule blob_step) simp

text \<open>
  Claim C10, as the code has it. In every state of the adapter, what the adapter reads
  after \<^verbatim>\<open>saveDocument\<close> or \<^verbatim>\<open>deleteDocument\<close> has the todos it had before the call,
  and what it reads after \<^verbatim>\<open>saveTodo\<close> or \<^verbatim>\<open>deleteTodo\<close> has the documents it had
  before, whether or not the storage accepts the write. For the serialized blob this holds
  when a record set is stored before the call: then the blob has the same todos after a
  document operation and the same documents after a todo operation. When none is stored
  (no item, the empty text, or a text that does not parse), the blob after the call has
  still none or it has the todos, respectively the documents, of the record set in
  memory, which the operation writes out whole.
\<close>

theorem operations_frame:
  "map_sum id rs_todos (loaded (fst (saveDocument doc s))) = map_sum id rs_todos (loaded s) \<and>
   map_sum id rs_todos (loaded (fst (deleteDocument i s))) = map_sum id rs_todos (loaded s) \<and>
   map_sum id rs_documents (loaded (fst (saveTodo todo s))) =
     map_sum id rs_documents (loaded s) \<and>
   map_sum id rs_documents (loaded (fst (deleteTodo j s))) =
     map_sum id rs_documents (loaded s) \<and>
   (blobTodos s \<noteq> None \<longrightarrow>
      blobTodos (fst (saveDocument doc s)) = blobTodos s \<and>
      blobTodos (fst (deleteDocument i s)) = blobTodos s) \<and>
   (blobDocuments s \<noteq> None \<longrightarrow>
      blobDocuments (fst (saveTodo todo s)) = blobDocuments s \<and>
      blobDocuments (fst (deleteTodo j s)) = blobDocuments s) \<and>
   (blobTodos s = None \<longrightarrow>
      (blobTodos (fst (saveDocument doc s)) = None \<or>
       blobTodos (fst (saveDocument doc s)) = Some (rs_todos (data s))) \<and>
      (blobTodos (fst (deleteDocument i s)) = None \<or>
       blobTodos (fst (deleteDocument i s)) = Some (rs_todos (data s)))) \<and>
   (blobDocuments s = None \<longrightarrow>
      (blobDocuments (fst (saveTodo todo s)) = None \<or>
       blobDocuments (fst (saveTodo todo s)) = Some (rs_documents (data s))) \<and>
      (blobDocuments (fst (deleteTodo j s)) = None \<or>
       blobDocuments (fst (deleteTodo j s)) = Some (rs_documents (data s))))"
  using saveDocument_frame [of doc s] deleteDocument_frame [of i s] saveTodo_frame [of todo s]
    deleteTodo_frame [of j s] saveDocument_blobTodos [of s doc] deleteDocument_blobTodos [of s i]
    saveTodo_blobDocuments [of s todo] deleteTodo_blobDocuments [of s j]
  by blast

theorem operations_frame_witness:
  "map_sum id rs_todos (loaded (fst (saveDocument sampleDocument sampleStorage))) =
     Inr [todoDataOf sampleTodo] \<and>
   map_sum id rs_documents (loaded (fst (deleteTodo ''7'' sampleStorage))) =
     Inr [docDataOf otherDocument] \<and>
   blobTodos sampleStorage \<noteq> None \<and>
   blobTodos (fst (saveDocument sampleDocument sampleStorage)) = Some [todoDataOf sampleTodo] \<and>
   blobTodos (fst (deleteDocument ''2'' sampleStorage)) = Some [todoDataOf sampleTodo] \<and>
   blobDocuments sampleStorage \<noteq> None \<and>
   blobDocuments (fst (saveTodo sampleTodo sampleStorage)) = Some [docDataOf otherDocument] \<and>
   blobDocuments (fst (deleteTodo ''7'' sampleStorage)) = Some [docDataOf otherDocument] \<and>
   blobTodos staleStorage = None \<and>
   (blobTodos (fst (saveDocument sampleDocument staleStorage)) = None \<or>
    blobTodos (fst (saveDocument sampleDocument staleStorage)) =
      Some (rs_todos (data staleStorage))) \<and>
   blobDocuments staleStorage = None \<and>
   (blobDocuments (fst (saveTodo sampleTodo staleStorage)) = None \<or>
    blobDocuments (fst (saveTodo sampleTodo staleStorage)) =
      Some (rs_documents (data staleStorage)))"
proof -
  have t: "map_sum id rs_todos (loaded sampleStorage) = Inr [todoDataOf sampleTodo]"
    and d: "map_sum id rs_documents (loaded sampleStorage) = Inr [docDataOf otherDocument]"
    by (simp_all add: loaded_def loadData_def sampleStorage_def)
  have bt: "blobTodos sampleStorage = Some [todoDataOf sampleTodo]"
    and bd: "blobDocuments sampleStorage = Some [docDataOf otherDocument]"
    by (simp_all add: blobTodos_def blobDocuments_def sampleStorage_def)
  have st: "blobTodos staleStorage = None" and sd: "blobDocuments staleStorage = None"
    by (simp_all add: blobTodos_def blobDocuments_def staleStorage_def)
  note full = operations_frame [of sampleDocument sampleStorage "''2''" sampleTodo "''7''"]
  note stale = operations_frame [of sampleDocument staleStorage "''2''" sampleTodo "''7''"]
  from full have 1: "map_sum id rs_todos (loaded (fst (saveDocument sampleDocument sampleStorage))) =
      Inr [todoDataOf sampleTodo]"
    and 2: "map_sum id rs_documents (loaded (fst (deleteTodo ''7'' sampleStorage))) =
      Inr [docDataOf otherDocument]"
    by (simp_all only: t d)
  from bt have nt: "blobTodos sampleStorage \<noteq> None" by simp
  from bd have nd: "blobDocuments sampleStorage \<noteq> None" by simp
  from full nt have "blobTodos (fst (saveDocument sampleDocument sampleStorage)) =
      blobTodos sampleStorage"
    and "blobTodos (fst (deleteDocument ''2'' sampleStorage)) = blobTodos sampleStorage"
    by blast+
  then have 3: "blobTodos (fst (saveDocument sampleDocument sampleStorage)) =
      Some [todoDataOf sampleTodo]"
    and 4: "blobTodos (fst (deleteDocument ''2'' sampleStorage)) = Some [todoDataOf sampleTodo]"
    by (simp_all only: bt)
  from full nd have "blobDocuments (fst (saveTodo sampleTodo sampleStorage)) =
      blobDocuments sampleStorage"
    and "blobDocuments (fst (deleteTodo ''7'' sampleStorage)) = blobDocuments sampleStorage"
    by blast+
  then have 5: "blobDocuments (fst (saveTodo sampleTodo sampleStorage)) =
      Some [docDataOf otherDocument]"
    and 6: "blobDocuments (fst (deleteTodo ''7'' sampleStorage)) = Some [docDataOf otherDocument]"
    by (simp_all only: bd)
  from stale st have 7: "blobTodos (fst (saveDocument sampleDocument staleStorage)) = None \<or>
      blobTodos (fst (saveDocument sampleDocument staleStorage)) =
        Some (rs_todos (data staleStorage))"
    by blast
  from stale sd have 8: "blobDocuments (fst (saveTodo sampleTodo staleStorage)) = None \<or>
      blobDocuments (fst (saveTodo sampleTodo staleStorage)) =
        Some (rs_documents (data staleStorage))"
    by blast
  from 1 2 nt 3 4 nd 5 6 st 7 sd 8 show ?thesis by blast
qed

theorem operations_frame_counterexample:
  "stored (fst (saveTodo sampleTodo (fst (saveDocument sampleDocument
       (newExcelStorage None refuseAll))))) = stored staleStorage \<and>
   data (fst (saveTodo sampleTodo (fst (saveDocument sampleDocument
       (newExcelStorage None refuseAll))))) = data staleStorage \<and>
   blobTodos staleStorage = None \<and>
   blobTodos (fst (saveDocument sampleDocument staleStorage)) = Some [todoDataOf sampleTodo] \<and>
   blobDocuments staleStorage = None \<and>
   blobDocuments (fst (saveTodo sampleTodo staleStorage)) = Some [docDataOf sampleDocument]"
  by (simp add: saveTodo_def saveDocument_def loadData_def saveData_def newExcelStorage_def
      refuseAll_def acceptAll_def emptyData_def staleStorage_def blobTodos_def blobDocuments_def
      JSON_stringify_def docDataOf_def todoDataOf_def sampleDocument_def sampleTodo_def Let_def)

section \<open>The matcher\<close>

lemma in_greedy: "s' \<in> set (greedy p s) \<longleftrightarrow> (\<exists>pre. s = pre @ s' \<and> list_all p pre)"
proof (induction s)
  case Nil
  then show ?case by auto
next
  case (Cons x xs)
  show ?case
  proof
    assume "s' \<in> set (greedy p (x # xs))"
    then consider "s' = x # xs" | "p x" "s' \<in> set (greedy p xs)"
      by (auto split: if_splits)
    then show "\<exists>pre. x # xs = pre @ s' \<and> list_all p pre"
    proof cases
      case 1
      then have "x # xs = [] @ s' \<and> list_all p []" by simp
      then show ?thesis by blast
    next
      case 2
      with Cons.IH obtain pre where "xs = pre @ s'" "list_all p pre" by blast
      with 2 have "x # xs = (x # pre) @ s' \<and> list_all p (x # pre)" by simp
      then show ?thesis by blast
    qed
  next
    assume "\<exists>pre. x # xs = pre @ s' \<and> list_all p pre"
    then obtain pre where pre: "x # xs = pre @ s'" "list_all p pre" by blast
    show "s' \<in> set (greedy p (x # xs))"
    proof (cases pre)
      case Nil
      with pre have e: "s' = x # xs" by simp
      show ?thesis unfolding e by simp
    next
      case (Cons y ys)
      with pre have "p x" "xs = ys @ s'" "list_all p ys" by simp_all
      with Cons.IH show ?thesis by auto
    qed
  qed
qed

lemma greedy_first: "\<exists>rest. greedy p s = dropWhile p s # rest"
  by (induction s) auto

lemma in_run_Lit:
  "m \<in> set (run (Lit w) s c) \<longleftrightarrow>
     snd m = c \<and> (\<exists>pre. s = pre @ fst m \<and> map canonicalize pre = map canonicalize w)"
proof
  assume "m \<in> set (run (Lit w) s c)"
  then have eq: "map canonicalize (take (length w) s) = map canonicalize w"
    and m: "m = (drop (length w) s, c)"
    by (simp_all split: if_splits)
  have "s = take (length w) s @ fst m" using m by simp
  with eq have "\<exists>pre. s = pre @ fst m \<and> map canonicalize pre = map canonicalize w"
    by blast
  with m show "snd m = c \<and> (\<exists>pre. s = pre @ fst m \<and> map canonicalize pre = map canonicalize w)"
    by simp
next
  assume "snd m = c \<and> (\<exists>pre. s = pre @ fst m \<and> map canonicalize pre = map canonicalize w)"
  then obtain pre where c: "snd m = c" and s: "s = pre @ fst m"
    and eq: "map canonicalize pre = map canonicalize w" by blast
  from eq have "length pre = length w" by (rule map_eq_imp_length_eq)
  with s have "take (length w) s = pre" "drop (length w) s = fst m" by simp_all
  with eq c show "m \<in> set (run (Lit w) s c)" by (cases m) simp
qed

lemma in_run_Many0:
  "m \<in> set (run (Many0 p) s c) \<longleftrightarrow> snd m = c \<and> (\<exists>pre. s = pre @ fst m \<and> list_all p pre)"
  by (cases m) (auto simp: in_greedy)

lemma in_run_Many1:
  "m \<in> set (run (Many1 p) s c) \<longleftrightarrow>
     snd m = c \<and> (\<exists>pre. s = pre @ fst m \<and> pre \<noteq> [] \<and> list_all p pre)"
proof (cases s)
  case Nil
  then show ?thesis by auto
next
  case (Cons x xs)
  show ?thesis
  proof
    assume "m \<in> set (run (Many1 p) s c)"
    with Cons have px: "p x" and "fst m \<in> set (greedy p xs)" and c: "snd m = c"
      by (auto split: if_splits)
    then obtain pre where "xs = pre @ fst m" "list_all p pre" by (auto simp: in_greedy)
    with Cons px have "s = (x # pre) @ fst m \<and> x # pre \<noteq> [] \<and> list_all p (x # pre)" by simp
    with c show "snd m = c \<and> (\<exists>pre. s = pre @ fst m \<and> pre \<noteq> [] \<and> list_all p pre)" by blast
  next
    assume "snd m = c \<and> (\<exists>pre. s = pre @ fst m \<and> pre \<noteq> [] \<and> list_all p pre)"
    then obtain pre where c: "snd m = c" and s: "s = pre @ fst m" and ne: "pre \<noteq> []"
      and all: "list_all p pre" by blast
    from ne obtain y ys where pre: "pre = y # ys" by (cases pre) auto
    with s Cons all have "p x" "xs = ys @ fst m" "list_all p ys" by simp_all
    then have "p x" "fst m \<in> set (greedy p xs)" by (auto simp: in_greedy)
    with Cons c show "m \<in> set (run (Many1 p) s c)" by (cases m) auto
  qed
qed

lemma run_Many1_first:
  "run (Many1 p) s c = m # ms \<Longrightarrow> m = (dropWhile p s, c)"
proof (cases s)
  case Nil
  assume "run (Many1 p) s c = m # ms"
  with Nil show ?thesis by simp
next
  case (Cons x xs)
  assume r: "run (Many1 p) s c = m # ms"
  obtain rest where "greedy p xs = dropWhile p xs # rest" using greedy_first by blast
  with r Cons show ?thesis by (auto split: if_splits)
qed

lemma in_run_Cls:
  "m \<in> set (run (Cls p) s c) \<longleftrightarrow> snd m = c \<and> (\<exists>x. s = x # fst m \<and> p x)"
  by (cases s; cases m) auto

lemma in_run_Opt:
  "m \<in> set (run (Opt a) s c) \<longleftrightarrow> m \<in> set (run a s c) \<or> m = (s, c)"
  by auto

lemma in_run_Seq:
  "m \<in> set (run (Seq a b) s c) \<longleftrightarrow> (\<exists>m1 \<in> set (run a s c). m \<in> set (run b (fst m1) (snd m1)))"
  by auto

lemma run_Seq_first:
  assumes "run (Seq a b) s c = m # ms"
  shows "\<exists>m1 \<in> set (run a s c). \<exists>rest. run b (fst m1) (snd m1) = m # rest"
proof -
  have "\<And>xs. concat (map (\<lambda>m. run b (fst m) (snd m)) xs) = m # ms \<Longrightarrow>
      \<exists>m1 \<in> set xs. \<exists>rest. run b (fst m1) (snd m1) = m # rest"
  proof -
    fix xs
    show "concat (map (\<lambda>m. run b (fst m) (snd m)) xs) = m # ms \<Longrightarrow>
      \<exists>m1 \<in> set xs. \<exists>rest. run b (fst m1) (snd m1) = m # rest"
    proof (induction xs)
      case Nil
      then show ?case by simp
    next
      case (Cons x xs)
      show ?case
      proof (cases "run b (fst x) (snd x)")
        case Nil
        with Cons show ?thesis by simp
      next
        case (Cons y ys)
        with Cons.prems have "y = m" by simp
        with Cons show ?thesis by auto
      qed
    qed
  qed
  with assms show ?thesis by simp
qed

lemma run_suffix: "m \<in> set (run r s c) \<Longrightarrow> \<exists>pre. s = pre @ fst m"
proof (induction r arbitrary: s c m)
  case Eps
  then show ?case by simp
next
  case (Lit w)
  then show ?case unfolding in_run_Lit by blast
next
  case (Cls p)
  then have "\<exists>x. s = [x] @ fst m" unfolding in_run_Cls by auto
  then show ?case by blast
next
  case (Seq a b)
  then obtain m1 where 1: "m1 \<in> set (run a s c)" and 2: "m \<in> set (run b (fst m1) (snd m1))"
    unfolding in_run_Seq by blast
  from Seq.IH(1) [OF 1] obtain p1 where "s = p1 @ fst m1" by blast
  moreover from Seq.IH(2) [OF 2] obtain p2 where "fst m1 = p2 @ fst m" by blast
  ultimately have "s = (p1 @ p2) @ fst m" by simp
  then show ?case by blast
next
  case (Alt a b)
  from Alt.prems have "m \<in> set (run a s c) \<or> m \<in> set (run b s c)" by simp
  with Alt.IH show ?case by blast
next
  case (Opt a)
  from Opt.prems have "m \<in> set (run a s c) \<or> m = (s, c)" by auto
  moreover have "s = [] @ s" by simp
  ultimately show ?case using Opt.IH by (metis fst_conv)
next
  case (Many0 p)
  then show ?case unfolding in_run_Many0 by blast
next
  case (Many1 p)
  then show ?case unfolding in_run_Many1 by blast
next
  case (Group a)
  from Group.prems obtain m0 where "m0 \<in> set (run a s c)" "fst m = fst m0" by auto
  with Group.IH show ?case by metis
qed

lemma in_run_Group:
  "m \<in> set (run (Group a) s c) \<longleftrightarrow>
     (\<exists>pre c0. s = pre @ fst m \<and> (fst m, c0) \<in> set (run a s c) \<and> snd m = Some pre)"
proof
  assume "m \<in> set (run (Group a) s c)"
  then obtain m0 where m0: "m0 \<in> set (run a s c)"
    and m: "m = (fst m0, Some (take (length s - length (fst m0)) s))" by auto
  from run_suffix [OF m0] obtain pre where s: "s = pre @ fst m0" by blast
  then have "take (length s - length (fst m0)) s = pre" by simp
  with m m0 s have "s = pre @ fst m \<and> (fst m, snd m0) \<in> set (run a s c) \<and> snd m = Some pre"
    by simp
  then show "\<exists>pre c0. s = pre @ fst m \<and> (fst m, c0) \<in> set (run a s c) \<and> snd m = Some pre"
    by blast
next
  assume "\<exists>pre c0. s = pre @ fst m \<and> (fst m, c0) \<in> set (run a s c) \<and> snd m = Some pre"
  then obtain pre c0 where s: "s = pre @ fst m" and m0: "(fst m, c0) \<in> set (run a s c)"
    and c: "snd m = Some pre" by blast
  from s have "take (length s - length (fst m)) s = pre" by simp
  with c have "m = (fst (fst m, c0), Some (take (length s - length (fst (fst m, c0))) s))"
    by (cases m) simp
  with m0 show "m \<in> set (run (Group a) s c)" by (auto simp del: fst_conv intro!: image_eqI)
qed

lemma match_None_iff: "match r u = None \<longleftrightarrow> (\<forall>j \<le> length u. run r (drop j u) None = [])"
proof (induction u)
  case Nil
  then show ?case by (simp split: list.splits)
next
  case (Cons x xs)
  have "(\<forall>j \<le> length (x # xs). run r (drop j (x # xs)) None = []) \<longleftrightarrow>
      run r (x # xs) None = [] \<and> (\<forall>j \<le> length xs. run r (drop j xs) None = [])"
  proof
    assume a: "\<forall>j \<le> length (x # xs). run r (drop j (x # xs)) None = []"
    then have "run r (drop 0 (x # xs)) None = []" by blast
    moreover have "\<forall>j \<le> length xs. run r (drop j xs) None = []"
    proof (intro allI impI)
      fix j assume "j \<le> length xs"
      then have "Suc j \<le> length (x # xs)" by simp
      with a have "run r (drop (Suc j) (x # xs)) None = []" by blast
      then show "run r (drop j xs) None = []" by simp
    qed
    ultimately show "run r (x # xs) None = [] \<and> (\<forall>j \<le> length xs. run r (drop j xs) None = [])"
      by simp
  next
    assume a: "run r (x # xs) None = [] \<and> (\<forall>j \<le> length xs. run r (drop j xs) None = [])"
    show "\<forall>j \<le> length (x # xs). run r (drop j (x # xs)) None = []"
    proof (intro allI impI)
      fix j assume "j \<le> length (x # xs)"
      then show "run r (drop j (x # xs)) None = []" using a by (cases j) simp_all
    qed
  qed
  with Cons show ?case by (simp split: list.splits)
qed

lemma match_Some:
  "match r u = Some g \<Longrightarrow>
   \<exists>pre rest m ms. u = pre @ rest \<and> run r rest None = m # ms \<and> g = snd m"
proof (induction u)
  case Nil
  then show ?case by (auto split: list.splits)
next
  case (Cons x xs)
  show ?case
  proof (cases "run r (x # xs) None")
    case Nil
    with Cons.prems have "match r xs = Some g" by simp
    from Cons.IH [OF this] obtain pre rest m ms
      where "xs = pre @ rest" "run r rest None = m # ms" "g = snd m" by blast
    then have "x # xs = (x # pre) @ rest \<and> run r rest None = m # ms \<and> g = snd m" by simp
    then show ?thesis by blast
  next
    case (Cons m ms)
    with Cons.prems have "g = snd m" by simp
    with Cons have "x # xs = [] @ (x # xs) \<and> run r (x # xs) None = m # ms \<and> g = snd m" by simp
    then show ?thesis by blast
  qed
qed

lemma run_Seq_Eps: "run (Seq a Eps) s c = run a s c"
  by (simp add: map_idI)

lemma take_length_takeWhile:
  "take (length s - length (dropWhile p s)) s = takeWhile p s"
  by (induction s) (simp_all add: Suc_diff_le length_dropWhile_le)

lemma run_Many1_nonempty:
  "run (Many1 p) s c = m # ms \<Longrightarrow> takeWhile p s \<noteq> []"
  by (cases s) (auto split: if_splits)

lemma run_Group_Many1_first:
  assumes "run (Group (Many1 p)) s c = m # ms"
  shows "m = (dropWhile p s, Some (takeWhile p s)) \<and> takeWhile p s \<noteq> []"
proof -
  from assms obtain m0 ms0 where r: "run (Many1 p) s c = m0 # ms0"
    and m: "m = (fst m0, Some (take (length s - length (fst m0)) s))"
    by (cases "run (Many1 p) s c") auto
  from run_Many1_first [OF r] have m0: "fst m0 = dropWhile p s" by simp
  from m show ?thesis
    unfolding m0 take_length_takeWhile using run_Many1_nonempty [OF r] by simp
qed

lemma dropWhile_stops: "dropWhile p s = [] \<or> \<not> p (hd (dropWhile p s))"
  using hd_dropWhile [of p s] by blast

lemma run_capture_tail_first:
  assumes "run (Seq (Group (Many1 p)) (Seq (Opt (Cls q)) Eps)) s c = m # ms"
  shows "snd m = Some (takeWhile p s) \<and> takeWhile p s \<noteq> []"
proof -
  from run_Seq_first [OF assms] obtain m1 rest
    where m1: "m1 \<in> set (run (Group (Many1 p)) s c)"
      and r: "run (Seq (Opt (Cls q)) Eps) (fst m1) (snd m1) = m # rest" by blast
  have opt_ne: "\<And>s' c'. run (Seq (Opt (Cls q)) Eps) s' c' \<noteq> []"
    by (simp add: run_Seq_Eps)
  obtain g0 gs where g: "run (Group (Many1 p)) s c = g0 # gs"
    using m1 by (cases "run (Group (Many1 p)) s c") auto
  obtain y ys where y: "run (Seq (Opt (Cls q)) Eps) (fst g0) (snd g0) = y # ys"
    using opt_ne [of "fst g0" "snd g0"] by (cases "run (Seq (Opt (Cls q)) Eps) (fst g0) (snd g0)") auto
  have "run (Seq (Group (Many1 p)) (Seq (Opt (Cls q)) Eps)) s c =
      run (Seq (Opt (Cls q)) Eps) (fst g0) (snd g0) @
      concat (map (\<lambda>m. run (Seq (Opt (Cls q)) Eps) (fst m) (snd m)) gs)"
    using g by simp
  with assms y have my: "m = y" by simp
  from y have "run (Opt (Cls q)) (fst g0) (snd g0) = y # ys"
    by (simp only: run_Seq_Eps)
  then have "y \<in> set (run (Opt (Cls q)) (fst g0) (snd g0))"
    by (simp del: run.simps)
  then have "snd y = snd g0"
    unfolding in_run_Opt in_run_Cls by auto
  moreover from run_Group_Many1_first [OF g]
  have "snd g0 = Some (takeWhile p s)" "takeWhile p s \<noteq> []" by simp_all
  ultimately show ?thesis using my by simp
qed

lemma remindPattern_first:
  assumes "run remindPattern s None = m # ms"
  shows "\<exists>kw ws g post. s = kw @ ws @ g @ post \<and>
      map canonicalize kw = map canonicalize ''remind me to'' \<and>
      ws \<noteq> [] \<and> list_all isSpace ws \<and> g \<noteq> [] \<and> list_all notNewline g \<and>
      (post = [] \<or> \<not> notNewline (hd post)) \<and> snd m = Some g"
proof -
  have p: "remindPattern =
      Seq (Lit ''remind me to'') (Seq (Many1 isSpace) (Seq (Group (Many1 notNewline)) Eps))"
    by (simp add: remindPattern_def Seqs_def)
  from assms obtain m1 r1
    where m1: "m1 \<in> set (run (Lit ''remind me to'') s None)"
      and r1: "run (Seq (Many1 isSpace) (Seq (Group (Many1 notNewline)) Eps)) (fst m1) (snd m1) =
                 m # r1"
    unfolding p using run_Seq_first by blast
  from run_Seq_first [OF r1] obtain m2 r2
    where m2: "m2 \<in> set (run (Many1 isSpace) (fst m1) (snd m1))"
      and r2: "run (Seq (Group (Many1 notNewline)) Eps) (fst m2) (snd m2) = m # r2" by blast
  from r2 have "run (Group (Many1 notNewline)) (fst m2) (snd m2) = m # r2"
    by (simp only: run_Seq_Eps)
  from run_Group_Many1_first [OF this]
  have m: "m = (dropWhile notNewline (fst m2), Some (takeWhile notNewline (fst m2)))"
    and ne: "takeWhile notNewline (fst m2) \<noteq> []" by simp_all
  from m1 obtain kw where kw: "s = kw @ fst m1"
    "map canonicalize kw = map canonicalize ''remind me to''"
    unfolding in_run_Lit by blast
  from m2 obtain ws where ws: "fst m1 = ws @ fst m2" "ws \<noteq> []" "list_all isSpace ws"
    unfolding in_run_Many1 by blast
  have split: "fst m2 = takeWhile notNewline (fst m2) @ dropWhile notNewline (fst m2)"
    by simp
  have all: "list_all notNewline (takeWhile notNewline (fst m2))"
    unfolding list_all_iff using set_takeWhileD by fast
  have "s = kw @ ws @ takeWhile notNewline (fst m2) @ dropWhile notNewline (fst m2)"
    using kw(1) ws(1) split by simp
  moreover have "snd m = Some (takeWhile notNewline (fst m2))" using m by simp
  ultimately have "s = kw @ ws @ takeWhile notNewline (fst m2) @ dropWhile notNewline (fst m2) \<and>
      map canonicalize kw = map canonicalize ''remind me to'' \<and>
      ws \<noteq> [] \<and> list_all isSpace ws \<and> takeWhile notNewline (fst m2) \<noteq> [] \<and>
      list_all notNewline (takeWhile notNewline (fst m2)) \<and>
      (dropWhile notNewline (fst m2) = [] \<or> \<not> notNewline (hd (dropWhile notNewline (fst m2)))) \<and>
      snd m = Some (takeWhile notNewline (fst m2))"
    using kw(2) ws(2,3) ne all dropWhile_stops [of notNewline "fst m2"] by simp
  then show ?thesis by (intro exI)
qed

lemma todoPattern_first:
  assumes "run todoPattern s None = m # ms"
  shows "\<exists>verb ws1 noun ws2 q g post. s = verb @ ws1 @ noun @ ws2 @ q @ g @ post \<and>
      (map canonicalize verb = map canonicalize ''create'' \<or>
       map canonicalize verb = map canonicalize ''add'' \<or>
       map canonicalize verb = map canonicalize ''new'') \<and>
      ws1 \<noteq> [] \<and> list_all isSpace ws1 \<and>
      map canonicalize noun = map canonicalize ''todo'' \<and>
      ws2 \<noteq> [] \<and> list_all isSpace ws2 \<and>
      (q = [] \<or> (\<exists>x. q = [x] \<and> isQuote x)) \<and>
      g \<noteq> [] \<and> list_all notQuoteOrNewline g \<and>
      (post = [] \<or> \<not> notQuoteOrNewline (hd post)) \<and> snd m = Some g"
proof -
  define tail where "tail = Seq (Group (Many1 notQuoteOrNewline)) (Seq (Opt (Cls isQuote)) Eps)"
  have p: "todoPattern =
      Seq (Alt (Lit ''create'') (Alt (Lit ''add'') (Lit ''new'')))
        (Seq (Many1 isSpace) (Seq (Lit ''todo'') (Seq (Many1 isSpace)
          (Seq (Opt (Cls isQuote)) tail))))"
    by (simp add: todoPattern_def Seqs_def tail_def)
  from assms obtain m1 r1
    where m1: "m1 \<in> set (run (Alt (Lit ''create'') (Alt (Lit ''add'') (Lit ''new''))) s None)"
      and r1: "run (Seq (Many1 isSpace) (Seq (Lit ''todo'') (Seq (Many1 isSpace)
          (Seq (Opt (Cls isQuote)) tail)))) (fst m1) (snd m1) = m # r1"
    unfolding p using run_Seq_first by blast
  from run_Seq_first [OF r1] obtain m2 r2
    where m2: "m2 \<in> set (run (Many1 isSpace) (fst m1) (snd m1))"
      and r2: "run (Seq (Lit ''todo'') (Seq (Many1 isSpace) (Seq (Opt (Cls isQuote)) tail)))
                 (fst m2) (snd m2) = m # r2" by blast
  from run_Seq_first [OF r2] obtain m3 r3
    where m3: "m3 \<in> set (run (Lit ''todo'') (fst m2) (snd m2))"
      and r3: "run (Seq (Many1 isSpace) (Seq (Opt (Cls isQuote)) tail)) (fst m3) (snd m3) = m # r3"
    by blast
  from run_Seq_first [OF r3] obtain m4 r4
    where m4: "m4 \<in> set (run (Many1 isSpace) (fst m3) (snd m3))"
      and r4: "run (Seq (Opt (Cls isQuote)) tail) (fst m4) (snd m4) = m # r4" by blast
  from run_Seq_first [OF r4] obtain m5 r5
    where m5: "m5 \<in> set (run (Opt (Cls isQuote)) (fst m4) (snd m4))"
      and r5: "run tail (fst m5) (snd m5) = m # r5" by blast
  from run_capture_tail_first [OF r5 [unfolded tail_def]]
  have g: "snd m = Some (takeWhile notQuoteOrNewline (fst m5))"
    and ne: "takeWhile notQuoteOrNewline (fst m5) \<noteq> []" by simp_all
  from m1 have "m1 \<in> set (run (Lit ''create'') s None) \<or> m1 \<in> set (run (Lit ''add'') s None) \<or>
      m1 \<in> set (run (Lit ''new'') s None)"
    by (simp del: run.simps(2) add: run.simps(5))
  then obtain verb where verb: "s = verb @ fst m1"
    "map canonicalize verb = map canonicalize ''create'' \<or>
     map canonicalize verb = map canonicalize ''add'' \<or>
     map canonicalize verb = map canonicalize ''new''"
    unfolding in_run_Lit by blast
  from m2 obtain ws1 where ws1: "fst m1 = ws1 @ fst m2" "ws1 \<noteq> []" "list_all isSpace ws1"
    unfolding in_run_Many1 by blast
  from m3 obtain noun where noun: "fst m2 = noun @ fst m3"
    "map canonicalize noun = map canonicalize ''todo''"
    unfolding in_run_Lit by blast
  from m4 obtain ws2 where ws2: "fst m3 = ws2 @ fst m4" "ws2 \<noteq> []" "list_all isSpace ws2"
    unfolding in_run_Many1 by blast
  from m5 obtain q where q: "fst m4 = q @ fst m5" "q = [] \<or> (\<exists>x. q = [x] \<and> isQuote x)"
  proof -
    assume that: "\<And>q. fst m4 = q @ fst m5 \<Longrightarrow> q = [] \<or> (\<exists>x. q = [x] \<and> isQuote x) \<Longrightarrow> thesis"
    from m5 have "m5 \<in> set (run (Cls isQuote) (fst m4) (snd m4)) \<or> m5 = (fst m4, snd m4)"
      unfolding in_run_Opt .
    then show thesis
    proof
      assume "m5 \<in> set (run (Cls isQuote) (fst m4) (snd m4))"
      then obtain x where "fst m4 = [x] @ fst m5" "isQuote x" unfolding in_run_Cls by auto
      then show thesis using that by blast
    next
      assume "m5 = (fst m4, snd m4)"
      then have "fst m4 = [] @ fst m5" by simp
      then show thesis using that by blast
    qed
  qed
  have all: "list_all notQuoteOrNewline (takeWhile notQuoteOrNewline (fst m5))"
    unfolding list_all_iff using set_takeWhileD by fast
  have "s = verb @ ws1 @ noun @ ws2 @ q @ takeWhile notQuoteOrNewline (fst m5) @
      dropWhile notQuoteOrNewline (fst m5)"
    using verb(1) ws1(1) noun(1) ws2(1) q(1) by simp
  with verb(2) ws1(2,3) noun(2) ws2(2,3) q(2) ne all g
    dropWhile_stops [of notQuoteOrNewline "fst m5"]
  have "s = verb @ ws1 @ noun @ ws2 @ q @ takeWhile notQuoteOrNewline (fst m5) @
        dropWhile notQuoteOrNewline (fst m5) \<and>
      (map canonicalize verb = map canonicalize ''create'' \<or>
       map canonicalize verb = map canonicalize ''add'' \<or>
       map canonicalize verb = map canonicalize ''new'') \<and>
      ws1 \<noteq> [] \<and> list_all isSpace ws1 \<and>
      map canonicalize noun = map canonicalize ''todo'' \<and>
      ws2 \<noteq> [] \<and> list_all isSpace ws2 \<and>
      (q = [] \<or> (\<exists>x. q = [x] \<and> isQuote x)) \<and>
      takeWhile notQuoteOrNewline (fst m5) \<noteq> [] \<and>
      list_all notQuoteOrNewline (takeWhile notQuoteOrNewline (fst m5)) \<and>
      (dropWhile notQuoteOrNewline (fst m5) = [] \<or>
       \<not> notQuoteOrNewline (hd (dropWhile notQuoteOrNewline (fst m5)))) \<and>
      snd m = Some (takeWhile notQuoteOrNewline (fst m5))"
    by (intro conjI)
  then show ?thesis by (intro exI)
qed

lemma match_remindPattern:
  assumes "match remindPattern u = Some x"
  shows "\<exists>g. x = Some g \<and> remindCapture u g"
proof -
  from match_Some [OF assms] obtain pre rest m ms
    where u: "u = pre @ rest" and r: "run remindPattern rest None = m # ms" and x: "x = snd m"
    by blast
  from remindPattern_first [OF r] obtain kw ws g post
    where "rest = kw @ ws @ g @ post"
      "map canonicalize kw = map canonicalize ''remind me to''"
      "ws \<noteq> []" "list_all isSpace ws" "g \<noteq> []" "list_all notNewline g"
      "post = [] \<or> \<not> notNewline (hd post)" "snd m = Some g" by blast
  then have "u = pre @ kw @ ws @ g @ post \<and>
      map canonicalize kw = map canonicalize ''remind me to'' \<and>
      ws \<noteq> [] \<and> list_all isSpace ws \<and> g \<noteq> [] \<and> list_all notNewline g \<and>
      (post = [] \<or> \<not> notNewline (hd post))" and xg: "x = Some g"
    using u x by simp_all
  then have "remindCapture u g"
    unfolding remindCapture_def by (intro exI)
  with xg show ?thesis by blast
qed

lemma match_todoPattern:
  assumes "match todoPattern u = Some x"
  shows "\<exists>g. x = Some g \<and> todoCapture u g"
proof -
  from match_Some [OF assms] obtain pre rest m ms
    where u: "u = pre @ rest" and r: "run todoPattern rest None = m # ms" and x: "x = snd m"
    by blast
  from todoPattern_first [OF r] obtain verb ws1 noun ws2 q g post
    where "rest = verb @ ws1 @ noun @ ws2 @ q @ g @ post"
      "map canonicalize verb = map canonicalize ''create'' \<or>
       map canonicalize verb = map canonicalize ''add'' \<or>
       map canonicalize verb = map canonicalize ''new''"
      "ws1 \<noteq> []" "list_all isSpace ws1"
      "map canonicalize noun = map canonicalize ''todo''"
      "ws2 \<noteq> []" "list_all isSpace ws2"
      "q = [] \<or> (\<exists>x. q = [x] \<and> isQuote x)"
      "g \<noteq> []" "list_all notQuoteOrNewline g"
      "post = [] \<or> \<not> notQuoteOrNewline (hd post)" "snd m = Some g" by blast
  then have "u = pre @ verb @ ws1 @ noun @ ws2 @ q @ g @ post \<and>
      (map canonicalize verb = map canonicalize ''create'' \<or>
       map canonicalize verb = map canonicalize ''add'' \<or>
       map canonicalize verb = map canonicalize ''new'') \<and>
      ws1 \<noteq> [] \<and> list_all isSpace ws1 \<and>
      map canonicalize noun = map canonicalize ''todo'' \<and>
      ws2 \<noteq> [] \<and> list_all isSpace ws2 \<and>
      (q = [] \<or> (\<exists>x. q = [x] \<and> isQuote x)) \<and>
      g \<noteq> [] \<and> list_all notQuoteOrNewline g \<and>
      (post = [] \<or> \<not> notQuoteOrNewline (hd post))" and xg: "x = Some g"
    using u x by simp_all
  then have "todoCapture u g"
    unfolding todoCapture_def by (intro exI)
  with xg show ?thesis by blast
qed

lemma in_run_SeqI:
  "(s1, c1) \<in> set (run a s c) \<Longrightarrow> m \<in> set (run b s1 c1) \<Longrightarrow>
   m \<in> set (run (Seq a b) s c)"
  unfolding in_run_Seq by force

lemma todoPattern_complete:
  assumes verb: "map canonicalize verb = map canonicalize ''create'' \<or>
                 map canonicalize verb = map canonicalize ''add'' \<or>
                 map canonicalize verb = map canonicalize ''new''"
    and ws1: "ws1 \<noteq> []" "list_all isSpace ws1"
    and noun: "map canonicalize noun = map canonicalize ''todo''"
    and ws2: "ws2 \<noteq> []" "list_all isSpace ws2"
    and q: "q = [] \<or> (\<exists>x. q = [x] \<and> isQuote x)"
    and g: "g \<noteq> []" "list_all notQuoteOrNewline g"
  shows "run todoPattern (verb @ ws1 @ noun @ ws2 @ q @ g @ post) None \<noteq> []"
proof -
  define tail where "tail = Seq (Group (Many1 notQuoteOrNewline)) (Seq (Opt (Cls isQuote)) Eps)"
  have p: "todoPattern =
      Seq (Alt (Lit ''create'') (Alt (Lit ''add'') (Lit ''new'')))
        (Seq (Many1 isSpace) (Seq (Lit ''todo'') (Seq (Many1 isSpace)
          (Seq (Opt (Cls isQuote)) tail))))"
    by (simp add: todoPattern_def Seqs_def tail_def)
  let ?s1 = "ws1 @ noun @ ws2 @ q @ g @ post"
  let ?s2 = "noun @ ws2 @ q @ g @ post"
  let ?s3 = "ws2 @ q @ g @ post"
  let ?s4 = "q @ g @ post"
  let ?s5 = "g @ post"
  have lit: "\<And>w. map canonicalize verb = map canonicalize w \<Longrightarrow>
      (?s1, None) \<in> set (run (Lit w) (verb @ ?s1) None)"
    unfolding in_run_Lit by auto
  have 1: "(?s1, None) \<in>
      set (run (Alt (Lit ''create'') (Alt (Lit ''add'') (Lit ''new''))) (verb @ ?s1) None)"
  proof -
    from verb lit have "(?s1, None) \<in> set (run (Lit ''create'') (verb @ ?s1) None) \<or>
        (?s1, None) \<in> set (run (Lit ''add'') (verb @ ?s1) None) \<or>
        (?s1, None) \<in> set (run (Lit ''new'') (verb @ ?s1) None)"
      by blast
    then show ?thesis by (simp del: run.simps(2) add: run.simps(5))
  qed
  have 2: "(?s2, None) \<in> set (run (Many1 isSpace) ?s1 None)"
    unfolding in_run_Many1 using ws1 by auto
  have 3: "(?s3, None) \<in> set (run (Lit ''todo'') ?s2 None)"
    unfolding in_run_Lit using noun by auto
  have 4: "(?s4, None) \<in> set (run (Many1 isSpace) ?s3 None)"
    unfolding in_run_Many1 using ws2 by auto
  have 5: "(?s5, None) \<in> set (run (Opt (Cls isQuote)) ?s4 None)"
    unfolding in_run_Opt in_run_Cls using q by auto
  have "(post, None) \<in> set (run (Many1 notQuoteOrNewline) ?s5 None)"
    unfolding in_run_Many1 using g by auto
  then have 6: "(post, Some g) \<in> set (run (Group (Many1 notQuoteOrNewline)) ?s5 None)"
    unfolding in_run_Group by auto
  have 7: "(post, Some g) \<in> set (run (Seq (Opt (Cls isQuote)) Eps) post (Some g))"
    by (simp add: run_Seq_Eps)
  have t: "(post, Some g) \<in> set (run tail ?s5 None)"
    unfolding tail_def by (rule in_run_SeqI [OF 6 7])
  have t5: "(post, Some g) \<in> set (run (Seq (Opt (Cls isQuote)) tail) ?s4 None)"
    by (rule in_run_SeqI [OF 5 t])
  have t4: "(post, Some g) \<in>
      set (run (Seq (Many1 isSpace) (Seq (Opt (Cls isQuote)) tail)) ?s3 None)"
    by (rule in_run_SeqI [OF 4 t5])
  have t3: "(post, Some g) \<in>
      set (run (Seq (Lit ''todo'') (Seq (Many1 isSpace) (Seq (Opt (Cls isQuote)) tail))) ?s2 None)"
    by (rule in_run_SeqI [OF 3 t4])
  have t2: "(post, Some g) \<in>
      set (run (Seq (Many1 isSpace) (Seq (Lit ''todo'') (Seq (Many1 isSpace)
          (Seq (Opt (Cls isQuote)) tail)))) ?s1 None)"
    by (rule in_run_SeqI [OF 2 t3])
  have "(post, Some g) \<in> set (run todoPattern (verb @ ?s1) None)"
    unfolding p by (rule in_run_SeqI [OF 1 t2])
  then show ?thesis by auto
qed

lemma todoCapture_match:
  assumes "todoCapture u g"
  shows "match todoPattern u \<noteq> None"
proof
  assume none: "match todoPattern u = None"
  from assms obtain pre verb ws1 noun ws2 q post
    where u: "u = pre @ verb @ ws1 @ noun @ ws2 @ q @ g @ post"
      and c: "map canonicalize verb = map canonicalize ''create'' \<or>
              map canonicalize verb = map canonicalize ''add'' \<or>
              map canonicalize verb = map canonicalize ''new''"
        "ws1 \<noteq> []" "list_all isSpace ws1"
        "map canonicalize noun = map canonicalize ''todo''"
        "ws2 \<noteq> []" "list_all isSpace ws2"
        "q = [] \<or> (\<exists>x. q = [x] \<and> isQuote x)"
        "g \<noteq> []" "list_all notQuoteOrNewline g"
    unfolding todoCapture_def by blast
  from none have all: "\<forall>j \<le> length u. run todoPattern (drop j u) None = []"
    unfolding match_None_iff .
  have "length pre \<le> length u" using u by simp
  with all have "run todoPattern (drop (length pre) u) None = []" by blast
  moreover have "drop (length pre) u = verb @ ws1 @ noun @ ws2 @ q @ g @ post"
    using u by simp
  ultimately have "run todoPattern (verb @ ws1 @ noun @ ws2 @ q @ g @ post) None = []"
    by simp
  with todoPattern_complete [OF c] show False by blast
qed

section \<open>The command extractor\<close>

lemma documentRequest_None:
  "\<not> documentIntent u \<Longrightarrow> documentRequest u (toLowerCase u) w = None"
  by (auto simp: documentRequest_def documentIntent_def)

lemma documentRequest_Some:
  assumes "documentIntent u"
  shows "\<exists>w' r. documentRequest u (toLowerCase u) w = Some (w', r) \<and> (\<forall>a. r \<noteq> Inr (AiResponse a))"
proof -
  from assms obtain x where x: "match titlePattern u = Some x"
    and t: "includes_js (toLowerCase u) ''create document'' \<or>
            includes_js (toLowerCase u) ''new document'' \<or>
            includes_js (toLowerCase u) ''add document''"
    by (auto simp: documentIntent_def)
  show ?thesis
  proof (cases x)
    case None
    with x t show ?thesis by (simp add: documentRequest_def)
  next
    case (Some g)
    obtain w' r where c: "createDocument (trim g) [] w = (w', r)"
      by (cases "createDocument (trim g) [] w")
    with x t Some show ?thesis
      by (cases r) (simp_all add: documentRequest_def Let_def)
  qed
qed

lemma todoRequest_None:
  "\<not> todoIntent u \<Longrightarrow> todoRequest u (toLowerCase u) w = None"
  by (auto simp: todoRequest_def todoIntent_def split: option.splits)

lemma todoRequest_computed:
  assumes "includes_js (toLowerCase u) ''create todo'' \<or> includes_js (toLowerCase u) ''add todo'' \<or>
           includes_js (toLowerCase u) ''new todo'' \<or> includes_js (toLowerCase u) ''remind me''"
    and "(case match todoPattern u of Some m \<Rightarrow> Some m | None \<Rightarrow> match remindPattern u) =
           Some (Some g)"
  shows "todoRequest u (toLowerCase u) w =
           Some (case createTodo (trim g) (statedPriority u) w of
                   (w', Inl e) \<Rightarrow> (w', Inl e)
                 | (w', Inr t) \<Rightarrow> (w', Inr (TodoAdded (trim g) (statedPriority u))))"
proof -
  obtain w' r where c: "createTodo (trim g) (statedPriority u) w = (w', r)"
    by (cases "createTodo (trim g) (statedPriority u) w")
  have p: "(if includes_js (toLowerCase u) ''urgent'' \<or> includes_js (toLowerCase u) ''important''
            then high
            else if includes_js (toLowerCase u) ''low priority'' then low else medium) =
           statedPriority u"
    by (simp add: statedPriority_def)
  have "todoRequest u (toLowerCase u) w =
      (case createTodo (trim g) (statedPriority u) w of
         (w', Inl e) \<Rightarrow> Some (w', Inl e)
       | (w', Inr t) \<Rightarrow> Some (w', Inr (TodoAdded (trim g) (statedPriority u))))"
    unfolding todoRequest_def assms(2) Let_def p using assms(1) by simp
  then show ?thesis
    unfolding c by (cases r) simp_all
qed

lemma todoRequest_Some:
  assumes "todoIntent u"
  shows "\<exists>g. (match todoPattern u = Some (Some g) \<and> todoCapture u g \<or>
              match todoPattern u = None \<and> (\<forall>g'. \<not> todoCapture u g') \<and>
              match remindPattern u = Some (Some g) \<and> remindCapture u g) \<and>
           todoRequest u (toLowerCase u) w =
             Some (case createTodo (trim g) (statedPriority u) w of
                     (w', Inl e) \<Rightarrow> (w', Inl e)
                   | (w', Inr t) \<Rightarrow> (w', Inr (TodoAdded (trim g) (statedPriority u))))"
proof -
  from assms have t: "includes_js (toLowerCase u) ''create todo'' \<or>
      includes_js (toLowerCase u) ''add todo'' \<or>
      includes_js (toLowerCase u) ''new todo'' \<or> includes_js (toLowerCase u) ''remind me''"
    and m: "match todoPattern u \<noteq> None \<or> match remindPattern u \<noteq> None"
    by (simp_all add: todoIntent_def)
  have "\<exists>g. (match todoPattern u = Some (Some g) \<and> todoCapture u g \<or>
        match todoPattern u = None \<and> (\<forall>g'. \<not> todoCapture u g') \<and>
        match remindPattern u = Some (Some g) \<and> remindCapture u g) \<and>
      (case match todoPattern u of Some m \<Rightarrow> Some m | None \<Rightarrow> match remindPattern u) =
        Some (Some g)"
  proof (cases "match todoPattern u")
    case (Some x)
    from match_todoPattern [OF Some] obtain g where "x = Some g" "todoCapture u g" by blast
    with Some show ?thesis by auto
  next
    case None
    with m obtain x where x: "match remindPattern u = Some x" by auto
    from match_remindPattern [OF x] obtain g where g: "x = Some g" "remindCapture u g" by blast
    from None have "\<forall>g'. \<not> todoCapture u g'" using todoCapture_match by blast
    with None x g show ?thesis by auto
  qed
  then obtain g where g: "match todoPattern u = Some (Some g) \<and> todoCapture u g \<or>
        match todoPattern u = None \<and> (\<forall>g'. \<not> todoCapture u g') \<and>
        match remindPattern u = Some (Some g) \<and> remindCapture u g"
    and c: "(case match todoPattern u of Some m \<Rightarrow> Some m | None \<Rightarrow> match remindPattern u) =
        Some (Some g)" by blast
  from g todoRequest_computed [OF t c] show ?thesis by blast
qed

lemma processAICommands_passthrough:
  "\<not> documentIntent u \<Longrightarrow> \<not> todoIntent u \<Longrightarrow>
   processAICommands u a w = (w, Inr (AiResponse a))"
  by (simp add: processAICommands_def documentRequest_None todoRequest_None)

lemma processAICommands_todo:
  "\<not> documentIntent u \<Longrightarrow> todoRequest u (toLowerCase u) w = Some r \<Longrightarrow>
   processAICommands u a w = r"
  by (simp add: processAICommands_def documentRequest_None)

lemma createTodo_unfold:
  "createTodo c p w =
     (w\<lparr>w_storage :=
          fst (saveTodo \<lparr>t_id = toString (now (w_clock w)), t_content = c, t_status = pending,
                          t_priority = p, t_createdAt = now (tick (w_clock w)),
                          t_updatedAt = now (tick (tick (w_clock w)))\<rparr> (w_storage w)),
        w_clock := tick (tick (tick (w_clock w)))\<rparr>,
      case snd (saveTodo \<lparr>t_id = toString (now (w_clock w)), t_content = c, t_status = pending,
                          t_priority = p, t_createdAt = now (tick (w_clock w)),
                          t_updatedAt = now (tick (tick (w_clock w)))\<rparr> (w_storage w)) of
        Inl e \<Rightarrow> Inl e
      | Inr u \<Rightarrow> Inr \<lparr>t_id = toString (now (w_clock w)), t_content = c, t_status = pending,
                        t_priority = p, t_createdAt = now (tick (w_clock w)),
                        t_updatedAt = now (tick (tick (w_clock w)))\<rparr>)"
  by (simp add: createTodo_def Let_def case_prod_beta split: sum.splits)

lemma saveTodo_healthy:
  assumes "stored s \<noteq> Some Unparsable" and "\<forall>b. accepts s b"
  shows "snd (saveTodo t s) = Inr ()"
proof -
  from loadData_defined [OF assms(1)] obtain s1 dat where l: "loadData s = (s1, Inr dat)" by blast
  from loadData_keeps [OF l] assms(2) have "\<forall>b. accepts s1 b" by simp
  then show ?thesis by (simp add: saveTodo_def l Let_def saveData_cases)
qed

lemma in_saveWithOverwrite: "new \<in> set (saveWithOverwrite new rs)"
  by (induction rs) auto

lemma saveTodo_stored:
  assumes "snd (saveTodo t s) = Inr ()"
  shows "\<exists>todos. blobTodos (fst (saveTodo t s)) = Some todos \<and> todoDataOf t \<in> set todos"
proof -
  obtain s1 r where l: "loadData s = (s1, r)" by (cases "loadData s")
  from assms l obtain dat where r: "r = Inr dat"
    by (cases r) (simp_all add: saveTodo_def)
  have i: "td_id (todoDataOf t) = t_id t" by (simp add: todoDataOf_def)
  define todos where "todos = saveWithOverwrite (todoDataOf t) (rs_todos dat)"
  have u: "(if findIndex (\<lambda>x. td_id x = t_id t) (rs_todos dat) \<ge> 0
       then (rs_todos dat)[nat (findIndex (\<lambda>x. td_id x = t_id t) (rs_todos dat)) := todoDataOf t]
       else rs_todos dat @ [todoDataOf t]) = todos"
    using upsert_is_saveWithOverwrite [of "todoDataOf t" "rs_todos dat"] unfolding i todos_def .
  have st: "saveTodo t s = saveData (s1\<lparr>data := dat\<lparr>rs_todos := todos\<rparr>\<rparr>)"
    by (simp add: saveTodo_def l r Let_def u)
  from assms have fs: "fst (saveTodo t s) =
      s1\<lparr>data := dat\<lparr>rs_todos := todos\<rparr>, stored := Some (Json (dat\<lparr>rs_todos := todos\<rparr>))\<rparr>"
    unfolding st by (simp add: saveData_cases split: if_splits)
  have "blobTodos (fst (saveTodo t s)) = Some todos"
    unfolding fs by (simp add: blobTodos_def)
  moreover have "todoDataOf t \<in> set todos"
    by (simp add: todos_def in_saveWithOverwrite)
  ultimately show ?thesis by blast
qed

lemma createsTodo_intro:
  assumes "\<not> documentIntent u"
    and "todoRequest u (toLowerCase u) w =
           Some (case createTodo c p w of
                   (w', Inl e) \<Rightarrow> (w', Inl e)
                 | (w', Inr t) \<Rightarrow> (w', Inr (TodoAdded c p)))"
  shows "createsTodo u a w c p"
proof -
  define t where "t = \<lparr>t_id = toString (now (w_clock w)), t_content = c, t_status = pending,
      t_priority = p, t_createdAt = now (tick (w_clock w)),
      t_updatedAt = now (tick (tick (w_clock w)))\<rparr>"
  have ct: "createTodo c p w =
      (w\<lparr>w_storage := fst (saveTodo t (w_storage w)), w_clock := tick (tick (tick (w_clock w)))\<rparr>,
       case snd (saveTodo t (w_storage w)) of Inl e \<Rightarrow> Inl e | Inr u \<Rightarrow> Inr t)"
    unfolding t_def by (rule createTodo_unfold)
  have run: "processAICommands u a w =
      (case createTodo c p w of
         (w', Inl e) \<Rightarrow> (w', Inl e)
       | (w', Inr t) \<Rightarrow> (w', Inr (TodoAdded c p)))"
    using processAICommands_todo [OF assms] .
  have r: "processAICommands u a w =
      (w\<lparr>w_storage := fst (saveTodo t (w_storage w)), w_clock := tick (tick (tick (w_clock w)))\<rparr>,
       case snd (saveTodo t (w_storage w)) of Inl e \<Rightarrow> Inl e | Inr u \<Rightarrow> Inr (TodoAdded c p))"
    unfolding run ct by (simp split: sum.splits)
  have 1: "w_notepad (fst (processAICommands u a w)) = w_notepad w"
    unfolding r by simp
  have 3: "stored (w_storage w) \<noteq> Some Unparsable \<and> (\<forall>b. accepts (w_storage w) b) \<longrightarrow>
      snd (processAICommands u a w) = Inr (TodoAdded c p)"
    unfolding r using saveTodo_healthy [of "w_storage w" t] by simp
  have 4: "snd (processAICommands u a w) = Inr (TodoAdded c p) \<longrightarrow>
      (\<exists>todos x. blobTodos (w_storage (fst (processAICommands u a w))) = Some todos \<and>
                  x \<in> set todos \<and> td_content x = c \<and> td_priority x = p \<and>
                  td_status x = pending)"
  proof
    assume "snd (processAICommands u a w) = Inr (TodoAdded c p)"
    then have "snd (saveTodo t (w_storage w)) = Inr ()"
      unfolding r by (simp split: sum.splits)
    from saveTodo_stored [OF this] obtain todos
      where "blobTodos (fst (saveTodo t (w_storage w))) = Some todos"
        "todoDataOf t \<in> set todos" by blast
    moreover have "td_content (todoDataOf t) = c \<and> td_priority (todoDataOf t) = p \<and>
        td_status (todoDataOf t) = pending"
      by (simp add: todoDataOf_def t_def)
    ultimately show "\<exists>todos x. blobTodos (w_storage (fst (processAICommands u a w))) = Some todos \<and>
        x \<in> set todos \<and> td_content x = c \<and> td_priority x = p \<and> td_status x = pending"
      unfolding r by auto
  qed
  from 1 run 3 4 show ?thesis unfolding createsTodo_def by blast
qed

lemma createsTodo_computed:
  assumes "\<not> documentIntent u"
    and "includes_js (toLowerCase u) ''create todo'' \<or> includes_js (toLowerCase u) ''add todo'' \<or>
         includes_js (toLowerCase u) ''new todo'' \<or> includes_js (toLowerCase u) ''remind me''"
    and "(case match todoPattern u of Some m \<Rightarrow> Some m | None \<Rightarrow> match remindPattern u) =
           Some (Some g)"
    and "trim g = c" and "statedPriority u = p"
  shows "createsTodo u a w c p"
  using createsTodo_intro [OF assms(1) todoRequest_computed [OF assms(2,3)]]
  unfolding assms(4,5) .

lemma todoIntent_createsTodo:
  assumes "\<not> documentIntent u" and "todoIntent u"
  shows "\<exists>g. (match todoPattern u = Some (Some g) \<and> todoCapture u g \<or>
              match todoPattern u = None \<and> (\<forall>g'. \<not> todoCapture u g') \<and>
              match remindPattern u = Some (Some g) \<and> remindCapture u g) \<and>
             createsTodo u a w (trim g) (statedPriority u)"
proof -
  from todoRequest_Some [OF assms(2)] obtain g
    where g: "match todoPattern u = Some (Some g) \<and> todoCapture u g \<or>
              match todoPattern u = None \<and> (\<forall>g'. \<not> todoCapture u g') \<and>
              match remindPattern u = Some (Some g) \<and> remindCapture u g"
      and r: "todoRequest u (toLowerCase u) w =
             Some (case createTodo (trim g) (statedPriority u) w of
                     (w', Inl e) \<Rightarrow> (w', Inl e)
                   | (w', Inr t) \<Rightarrow> (w', Inr (TodoAdded (trim g) (statedPriority u))))"
    by blast
  from g createsTodo_intro [OF assms(1) r] show ?thesis by blast
qed

lemma createTodo_storage:
  "w_storage (fst (createTodo c p w)) =
     fst (saveTodo \<lparr>t_id = toString (now (w_clock w)), t_content = c, t_status = pending,
                    t_priority = p, t_createdAt = now (tick (w_clock w)),
                    t_updatedAt = now (tick (tick (w_clock w)))\<rparr> (w_storage w))"
  unfolding createTodo_unfold by simp

lemma dentist_message:
  "\<not> documentIntent ''remind me to call the dentist'' \<and>
   includes_js (toLowerCase ''remind me to call the dentist'') ''remind me'' \<and>
   (case match todoPattern ''remind me to call the dentist'' of
      Some m \<Rightarrow> Some m
    | None \<Rightarrow> match remindPattern ''remind me to call the dentist'') =
     Some (Some ''call the dentist'') \<and>
   trim ''call the dentist'' = ''call the dentist'' \<and>
   statedPriority ''remind me to call the dentist'' = medium"
  by code_simp

lemma report_message:
  "\<not> documentIntent ''remind me to submit the urgent report'' \<and>
   includes_js (toLowerCase ''remind me to submit the urgent report'') ''remind me'' \<and>
   (case match todoPattern ''remind me to submit the urgent report'' of
      Some m \<Rightarrow> Some m
    | None \<Rightarrow> match remindPattern ''remind me to submit the urgent report'') =
     Some (Some ''submit the urgent report'') \<and>
   trim ''submit the urgent report'' = ''submit the urgent report'' \<and>
   statedPriority ''remind me to submit the urgent report'' = high"
  by code_simp

text \<open>
  Claim C4, as the code has it. When the message has a document trigger phrase and the
  title pattern does not match, no document is created: the notepad state is as before
  and so are the documents the adapter reads; the documents in the stored text are as
  before when a record set is stored, and when none is stored the stored text afterwards
  has still none or the documents that were in the adapter's memory. Control goes on to
  the todo check. If the todo intent does not match either, the assistant's reply is
  returned as it came and nothing has changed; if it matches, a todo item is created from
  the same message (from the text after the todo phrase, or after "remind me to" when no
  text follows a todo phrase) and the reply is its confirmation, or the error of the save.
\<close>

theorem document_trigger_without_title:
  assumes "includes_js (toLowerCase u) ''create document'' \<or>
           includes_js (toLowerCase u) ''new document'' \<or>
           includes_js (toLowerCase u) ''add document''"
    and "match titlePattern u = None"
  shows "w_notepad (fst (processAICommands u a w)) = w_notepad w \<and>
         map_sum id rs_documents (loaded (w_storage (fst (processAICommands u a w)))) =
           map_sum id rs_documents (loaded (w_storage w)) \<and>
         (blobDocuments (w_storage w) \<noteq> None \<longrightarrow>
            blobDocuments (w_storage (fst (processAICommands u a w))) =
              blobDocuments (w_storage w)) \<and>
         (blobDocuments (w_storage w) = None \<longrightarrow>
            blobDocuments (w_storage (fst (processAICommands u a w))) = None \<or>
            blobDocuments (w_storage (fst (processAICommands u a w))) =
              Some (rs_documents (data (w_storage w)))) \<and>
         (\<not> todoIntent u \<longrightarrow> processAICommands u a w = (w, Inr (AiResponse a))) \<and>
         (todoIntent u \<longrightarrow>
            (\<exists>g. (match todoPattern u = Some (Some g) \<and> todoCapture u g \<or>
                   match todoPattern u = None \<and> (\<forall>g'. \<not> todoCapture u g') \<and>
                   match remindPattern u = Some (Some g) \<and> remindCapture u g) \<and>
                  createsTodo u a w (trim g) (statedPriority u)))"
proof -
  from assms(2) have nd: "\<not> documentIntent u" by (simp add: documentIntent_def)
  show ?thesis
  proof (cases "todoIntent u")
    case False
    with nd have "processAICommands u a w = (w, Inr (AiResponse a))"
      by (rule processAICommands_passthrough)
    with False show ?thesis by simp
  next
    case True
    from todoIntent_createsTodo [OF nd True] obtain g
      where g: "match todoPattern u = Some (Some g) \<and> todoCapture u g \<or>
                match todoPattern u = None \<and> (\<forall>g'. \<not> todoCapture u g') \<and>
                match remindPattern u = Some (Some g) \<and> remindCapture u g"
        and c: "createsTodo u a w (trim g) (statedPriority u)" by blast
    from c have n: "w_notepad (fst (processAICommands u a w)) = w_notepad w"
      and r: "processAICommands u a w =
        (case createTodo (trim g) (statedPriority u) w of
           (w', Inl e) \<Rightarrow> (w', Inl e)
         | (w', Inr t) \<Rightarrow> (w', Inr (TodoAdded (trim g) (statedPriority u))))"
      unfolding createsTodo_def by blast+
    define t where "t = \<lparr>t_id = toString (now (w_clock w)), t_content = trim g,
        t_status = pending, t_priority = statedPriority u,
        t_createdAt = now (tick (w_clock w)), t_updatedAt = now (tick (tick (w_clock w)))\<rparr>"
    have "fst (processAICommands u a w) = fst (createTodo (trim g) (statedPriority u) w)"
      unfolding r by (simp split: prod.splits sum.splits)
    then have st: "w_storage (fst (processAICommands u a w)) = fst (saveTodo t (w_storage w))"
      unfolding t_def by (simp only: createTodo_storage)
    have d: "map_sum id rs_documents (loaded (w_storage (fst (processAICommands u a w)))) =
        map_sum id rs_documents (loaded (w_storage w))"
      unfolding st by (rule saveTodo_frame)
    have b: "(blobDocuments (w_storage w) \<noteq> None \<longrightarrow>
          blobDocuments (w_storage (fst (processAICommands u a w))) =
            blobDocuments (w_storage w)) \<and>
        (blobDocuments (w_storage w) = None \<longrightarrow>
          blobDocuments (w_storage (fst (processAICommands u a w))) = None \<or>
          blobDocuments (w_storage (fst (processAICommands u a w))) =
            Some (rs_documents (data (w_storage w))))"
      unfolding st by (rule saveTodo_blobDocuments)
    from n d b True g c show ?thesis by blast
  qed
qed

theorem document_trigger_without_title_witness:
  "includes_js (toLowerCase ''please create document'') ''create document'' \<and>
   match titlePattern ''please create document'' = None \<and>
   \<not> todoIntent ''please create document'' \<and>
   processAICommands ''please create document'' ''Sure.'' sampleWorld =
     (sampleWorld, Inr (AiResponse ''Sure.'')) \<and>
   includes_js (toLowerCase ''remind me to create documents'') ''create document'' \<and>
   match titlePattern ''remind me to create documents'' = None \<and>
   todoIntent ''remind me to create documents'' \<and>
   w_notepad (fst (processAICommands ''remind me to create documents'' ''Sure.'' sampleWorld)) =
     w_notepad sampleWorld \<and>
   blobDocuments (w_storage sampleWorld) \<noteq> None \<and>
   blobDocuments (w_storage (fst (processAICommands ''remind me to create documents'' ''Sure.''
       sampleWorld))) = Some [docDataOf otherDocument] \<and>
   blobDocuments (w_storage staleWorld) = None \<and>
   (blobDocuments (w_storage (fst (processAICommands ''remind me to create documents'' ''Sure.''
       staleWorld))) = None \<or>
    blobDocuments (w_storage (fst (processAICommands ''remind me to create documents'' ''Sure.''
       staleWorld))) = Some (rs_documents (data (w_storage staleWorld))))"
proof -
  have t1: "includes_js (toLowerCase ''please create document'') ''create document''"
    and m1: "match titlePattern ''please create document'' = None"
    and n1: "\<not> todoIntent ''please create document''"
    by code_simp+
  have t2: "includes_js (toLowerCase ''remind me to create documents'') ''create document''"
    and m2: "match titlePattern ''remind me to create documents'' = None"
    and n2: "todoIntent ''remind me to create documents''"
    by code_simp+
  have bd: "blobDocuments (w_storage sampleWorld) = Some [docDataOf otherDocument]"
    and sd: "blobDocuments (w_storage staleWorld) = None"
    by (simp_all add: blobDocuments_def sampleWorld_def sampleStorage_def staleWorld_def
        staleStorage_def)
  from bd have nb: "blobDocuments (w_storage sampleWorld) \<noteq> None" by simp
  from document_trigger_without_title [of "''please create document''" "''Sure.''" sampleWorld]
    t1 m1 n1
  have 1: "processAICommands ''please create document'' ''Sure.'' sampleWorld =
     (sampleWorld, Inr (AiResponse ''Sure.''))"
    by blast
  note second = document_trigger_without_title [of "''remind me to create documents''" "''Sure.''"
      sampleWorld, OF _ m2]
  from second t2
  have 2: "w_notepad (fst (processAICommands ''remind me to create documents'' ''Sure.''
      sampleWorld)) = w_notepad sampleWorld"
    by blast
  from second t2 nb
  have "blobDocuments (w_storage (fst (processAICommands ''remind me to create documents''
      ''Sure.'' sampleWorld))) = blobDocuments (w_storage sampleWorld)"
    by blast
  then have 3: "blobDocuments (w_storage (fst (processAICommands ''remind me to create documents''
      ''Sure.'' sampleWorld))) = Some [docDataOf otherDocument]"
    by (simp only: bd)
  from document_trigger_without_title [of "''remind me to create documents''" "''Sure.''"
      staleWorld, OF _ m2] t2 sd
  have 4: "blobDocuments (w_storage (fst (processAICommands ''remind me to create documents''
        ''Sure.'' staleWorld))) = None \<or>
      blobDocuments (w_storage (fst (processAICommands ''remind me to create documents''
        ''Sure.'' staleWorld))) = Some (rs_documents (data (w_storage staleWorld)))"
    by blast
  from t1 m1 n1 1 t2 m2 n2 2 nb 3 sd 4 show ?thesis by blast
qed

theorem document_trigger_without_title_counterexample:
  "includes_js (toLowerCase ''remind me to create documents'') ''create document'' \<and>
   match titlePattern ''remind me to create documents'' = None \<and>
   snd (processAICommands ''remind me to create documents'' ''Sure.'' sampleWorld) =
     Inr (TodoAdded ''create documents'' medium) \<and>
   blobTodos (w_storage sampleWorld) = Some [todoDataOf sampleTodo] \<and>
   blobTodos (w_storage (fst (processAICommands ''remind me to create documents'' ''Sure.''
       sampleWorld))) =
     Some [todoDataOf sampleTodo,
           \<lparr>td_id = ''1000'', td_content = ''create documents'', td_status = pending,
            td_priority = medium, td_createdAt = ISO 1000, td_updatedAt = ISO 1000\<rparr>]"
  by code_simp

text \<open>
  Claim C5. For a fixed message and a fixed world (notepad state, storage, clock), two
  runs of the extractor with different assistant replies end in the same world: the same
  document or todo item, with the same fields, or none. Whether the run returns the
  assistant's reply is decided by the message alone: it does so exactly when neither
  intent matches the message, and then nothing has changed; when an intent matches, the
  two runs return the same value as well.
\<close>

theorem extractor_ignores_reply:
  "fst (processAICommands u a1 w) = fst (processAICommands u a2 w) \<and>
   ((snd (processAICommands u a1 w) = Inr (AiResponse a1)) =
      (\<not> documentIntent u \<and> \<not> todoIntent u)) \<and>
   (documentIntent u \<or> todoIntent u \<longrightarrow>
      processAICommands u a1 w = processAICommands u a2 w) \<and>
   (\<not> documentIntent u \<and> \<not> todoIntent u \<longrightarrow>
      processAICommands u a1 w = (w, Inr (AiResponse a1)))"
proof (cases "documentIntent u")
  case True
  from documentRequest_Some [OF True] obtain w' r
    where d: "documentRequest u (toLowerCase u) w = Some (w', r)"
      and r: "\<forall>a. r \<noteq> Inr (AiResponse a)" by blast
  have "\<And>a. processAICommands u a w = (w', r)"
    by (simp add: processAICommands_def d)
  with True r show ?thesis by simp
next
  case nd: False
  show ?thesis
  proof (cases "todoIntent u")
    case True
    from todoRequest_Some [OF True] obtain g
      where t: "todoRequest u (toLowerCase u) w =
             Some (case createTodo (trim g) (statedPriority u) w of
                     (w', Inl e) \<Rightarrow> (w', Inl e)
                   | (w', Inr t) \<Rightarrow> (w', Inr (TodoAdded (trim g) (statedPriority u))))"
      by blast
    have p: "\<And>a. processAICommands u a w =
        (case createTodo (trim g) (statedPriority u) w of
           (w', Inl e) \<Rightarrow> (w', Inl e)
         | (w', Inr t) \<Rightarrow> (w', Inr (TodoAdded (trim g) (statedPriority u))))"
      using processAICommands_todo [OF nd t] .
    have "snd (processAICommands u a1 w) \<noteq> Inr (AiResponse a1)"
      unfolding p by (simp split: prod.splits sum.splits)
    with True p show ?thesis by simp
  next
    case False
    with nd have "\<And>a. processAICommands u a w = (w, Inr (AiResponse a))"
      by (simp add: processAICommands_passthrough)
    with nd False show ?thesis by simp
  qed
qed

theorem extractor_ignores_reply_witness:
  "todoIntent ''remind me to call the dentist'' \<and>
   processAICommands ''remind me to call the dentist'' ''Sure.'' sampleWorld =
     processAICommands ''remind me to call the dentist'' ''I cannot do that.'' sampleWorld \<and>
   \<not> documentIntent ''what is a monad?'' \<and> \<not> todoIntent ''what is a monad?'' \<and>
   processAICommands ''what is a monad?'' ''Sure.'' sampleWorld =
     (sampleWorld, Inr (AiResponse ''Sure.''))"
proof -
  have t: "todoIntent ''remind me to call the dentist''"
    by code_simp
  have n: "\<not> documentIntent ''what is a monad?''" "\<not> todoIntent ''what is a monad?''"
    by code_simp+
  from extractor_ignores_reply [of "''remind me to call the dentist''" "''Sure.''" sampleWorld
      "''I cannot do that.''"] t
  have 1: "processAICommands ''remind me to call the dentist'' ''Sure.'' sampleWorld =
     processAICommands ''remind me to call the dentist'' ''I cannot do that.'' sampleWorld"
    by blast
  from extractor_ignores_reply [of "''what is a monad?''" "''Sure.''" sampleWorld "''Sure.''"] n
  have 2: "processAICommands ''what is a monad?'' ''Sure.'' sampleWorld =
     (sampleWorld, Inr (AiResponse ''Sure.''))"
    by blast
  from t 1 n 2 show ?thesis by blast
qed

text \<open>
  Claim C8, as the code has it. The document intent is checked first, so the claim holds
  for the messages that match the todo intent and not the document intent. For these the
  extractor creates a todo item whose content is the captured text with the white space
  at its ends removed. When some text follows a create, add or new todo phrase, the
  captured text is group 1 of the first match of the todo pattern: text after the phrase
  and an optional quote character, up to the next quote character or line feed.
  Only when no text follows such a phrase (the todo pattern has no match) is it group 1
  of the first match of the remind pattern: text after "remind me to" and white space, up
  to the end of the line. The priority is high if the message contains "urgent" or
  "important", low if it contains "low priority", medium otherwise. The two messages of
  the claim give the content and the priority it states, for every reply and every world.
\<close>

theorem todo_intent_creates_todo:
  "(\<not> documentIntent u \<and> todoIntent u \<longrightarrow>
      (\<exists>g. (match todoPattern u = Some (Some g) \<and> todoCapture u g \<or>
             match todoPattern u = None \<and> (\<forall>g'. \<not> todoCapture u g') \<and>
             match remindPattern u = Some (Some g) \<and> remindCapture u g) \<and>
            createsTodo u a w (trim g) (statedPriority u))) \<and>
   createsTodo ''remind me to call the dentist'' a w ''call the dentist'' medium \<and>
   createsTodo ''remind me to submit the urgent report'' a w ''submit the urgent report'' high"
proof (intro conjI impI)
  assume "\<not> documentIntent u \<and> todoIntent u"
  then show "\<exists>g. (match todoPattern u = Some (Some g) \<and> todoCapture u g \<or>
        match todoPattern u = None \<and> (\<forall>g'. \<not> todoCapture u g') \<and>
        match remindPattern u = Some (Some g) \<and> remindCapture u g) \<and>
      createsTodo u a w (trim g) (statedPriority u)"
    using todoIntent_createsTodo by blast
next
  from dentist_message
  show "createsTodo ''remind me to call the dentist'' a w ''call the dentist'' medium"
    by (intro createsTodo_computed [where g = "''call the dentist''"]) blast+
next
  from report_message
  show "createsTodo ''remind me to submit the urgent report'' a w
      ''submit the urgent report'' high"
    by (intro createsTodo_computed [where g = "''submit the urgent report''"]) blast+
qed

theorem todo_intent_creates_todo_witness:
  "\<not> documentIntent ''remind me to add todo milk'' \<and>
   todoIntent ''remind me to add todo milk'' \<and>
   match todoPattern ''remind me to add todo milk'' = Some (Some ''milk'') \<and>
   trim ''milk'' = ''milk'' \<and>
   statedPriority ''remind me to add todo milk'' = medium \<and>
   createsTodo ''remind me to add todo milk'' ''Sure.'' sampleWorld ''milk'' medium \<and>
   snd (processAICommands ''remind me to add todo milk'' ''Sure.'' sampleWorld) =
     Inr (TodoAdded ''milk'' medium)"
proof -
  have h: "\<not> documentIntent ''remind me to add todo milk''"
    "todoIntent ''remind me to add todo milk''"
    by code_simp+
  have m: "match todoPattern ''remind me to add todo milk'' = Some (Some ''milk'')"
    by code_simp
  have e: "trim ''milk'' = ''milk''" "statedPriority ''remind me to add todo milk'' = medium"
    by code_simp+
  from todo_intent_creates_todo [of "''remind me to add todo milk''" "''Sure.''" sampleWorld] h
  obtain g where g: "match todoPattern ''remind me to add todo milk'' = Some (Some g) \<and>
        todoCapture ''remind me to add todo milk'' g \<or>
      match todoPattern ''remind me to add todo milk'' = None \<and>
        (\<forall>g'. \<not> todoCapture ''remind me to add todo milk'' g') \<and>
        match remindPattern ''remind me to add todo milk'' = Some (Some g) \<and>
        remindCapture ''remind me to add todo milk'' g"
    and c: "createsTodo ''remind me to add todo milk'' ''Sure.'' sampleWorld (trim g)
        (statedPriority ''remind me to add todo milk'')"
    by blast
  from g m have "g = ''milk''" by auto
  with c e have c': "createsTodo ''remind me to add todo milk'' ''Sure.'' sampleWorld ''milk''
      medium"
    by simp
  have ok: "stored (w_storage sampleWorld) \<noteq> Some Unparsable \<and>
      (\<forall>b. accepts (w_storage sampleWorld) b)"
    by (simp add: sampleWorld_def sampleStorage_def acceptAll_def)
  from c' ok have r: "snd (processAICommands ''remind me to add todo milk'' ''Sure.'' sampleWorld) =
      Inr (TodoAdded ''milk'' medium)"
    unfolding createsTodo_def by blast
  from h m e c' r show ?thesis by blast
qed

theorem todo_intent_creates_todo_counterexample:
  "todoIntent ''new document remind me to call mom'' \<and>
   snd (processAICommands ''new document remind me to call mom'' ''Sure.'' sampleWorld) =
     Inr (DocumentCreated ''remind me to call mom'') \<and>
   blobTodos (w_storage sampleWorld) = Some [todoDataOf sampleTodo] \<and>
   blobTodos (w_storage (fst (processAICommands ''new document remind me to call mom''
       ''Sure.'' sampleWorld))) = Some [todoDataOf sampleTodo]"
  by code_simp

end
